theory Spec2Isabelle
  imports Main "HOL-Library.Multiset"
begin

section \<open>Jobs, queues and the state of the job manager\<close>

text \<open>
  The Go code keeps jobs behind pointers: a queue holds \<^verbatim>\<open>[]*Job\<close>, a predecessor
  points at its successor, and the manager finds a job by its id and then mutates it in
  place. The model therefore has an explicit store: an address is a natural number, the
  store maps addresses to job records, and queues and \<open>next\<close> fields hold addresses.
\<close>

type_synonym addr = nat

text \<open>
  Job types and statuses are string constants of the package \<^verbatim>\<open>internal/system\<close>. A job
  type the switch of \<^verbatim>\<open>CreateJob\<close> does not know is \<open>OtherJobType\<close>.
\<close>

datatype JobType =
    DownloadJobType | InstallJobType | RemoveJobType
  | UpdateSourceJobType | DistUpgradeJobType | UpdateJobType
  | OtherJobType string

datatype Status =
  ReadyStatus | RunningStatus | FailedStatus | PausedStatus | SucceedStatus | EndStatus

datatype error =
    NotFoundError
  | NotSupportError
  | ExistsError JobType "string list"
  | BackendError string

text \<open>
  The fields of \<^verbatim>\<open>Job\<close> that job_manager.go reads or writes. \<open>Id_job\<close> is the field
  \<^verbatim>\<open>Id\<close> and \<open>next_job\<close> the field \<^verbatim>\<open>next\<close> (a nil pointer is \<open>None\<close>).
\<close>

record Job =
  Id_job :: string
  Name :: string
  Packages :: "string list"
  CreateTime :: int
  Type :: JobType
  Status :: Status
  Cancelable :: bool
  queueName :: string
  retry :: int
  next_job :: "addr option"

record JobQueue =
  Name_queue :: string
  Jobs :: "addr list"
  Cap :: int

text \<open>
  The backend (\<^verbatim>\<open>system.System\<close>) as far as the manager calls it: \<open>Abort\<close> on a job
  id, and the call that starts a job. Both answer with an error or with none.
\<close>

record System =
  Abort :: "string \<Rightarrow> error option"
  Start :: "Job \<Rightarrow> error option"

text \<open>
  \<open>queues\<close> is the Go map from queue names to queues, kept as an association list: a
  \<^verbatim>\<open>range\<close> over the map visits the entries in the order of the list. Go leaves that
  order open; the theorems below hold for every order. \<open>nextAddr\<close> is the next unused
  address of the store, and \<open>notified\<close> counts the calls of \<^verbatim>\<open>notify\<close>.
  \<open>aborts\<close> is what the manager has asked of the backend through
  \<^verbatim>\<open>m.system.Abort\<close>: the job ids of the calls, the oldest first. The call is an
  effect outside the manager, and \<^verbatim>\<open>CleanJob\<close> drops its answer; the record keeps
  the call visible. \<open>transitions\<close> lists the status changes that
  \<^verbatim>\<open>TransitionJobState\<close> has applied, the oldest first: the job, the status it left
  and the status it entered. A job that is paused and then ended shows in it as two
  changes, which the job's last status alone would not tell.
\<close>

record JobManager =
  queues :: "(string \<times> JobQueue) list"
  heap :: "addr \<Rightarrow> Job"
  nextAddr :: addr
  changed :: bool
  notified :: nat
  aborts :: "string list"
  transitions :: "(addr \<times> Status \<times> Status) list"

definition DownloadQueue :: string where
  "DownloadQueue = ''download''"

definition DownloadQueueCap :: int where
  "DownloadQueueCap = 3"

definition SystemChangeQueue :: string where
  "SystemChangeQueue = ''system change''"

definition SystemChangeQueueCap :: int where
  "SystemChangeQueueCap = 1"

definition LockQueue :: string where
  "LockQueue = ''lock''"

definition NewJobQueue :: "string \<Rightarrow> int \<Rightarrow> JobQueue" where
  "NewJobQueue name cap = \<lparr>Name_queue = name, Jobs = [], Cap = cap\<rparr>"

text \<open>\<^verbatim>\<open>m.queues[name] = q\<close>: the entry of an existing key is replaced, a new key is added.\<close>

fun set_queue :: "string \<Rightarrow> JobQueue \<Rightarrow> (string \<times> JobQueue) list \<Rightarrow> (string \<times> JobQueue) list" where
  "set_queue name q [] = [(name, q)]"
| "set_queue name q ((n, q0) # rest) =
     (if n = name then (n, q) # rest else (n, q0) # set_queue name q rest)"

definition createJobList :: "string \<Rightarrow> int \<Rightarrow> JobManager \<Rightarrow> JobManager" where
  "createJobList name cap m = m\<lparr>queues := set_queue name (NewJobQueue name cap) (queues m)\<rparr>"

definition NewJobManager :: "(addr \<Rightarrow> Job) \<Rightarrow> JobManager" where
  "NewJobManager h =
     createJobList LockQueue 1
       (createJobList SystemChangeQueue SystemChangeQueueCap
         (createJobList DownloadQueue DownloadQueueCap
           \<lparr>queues = [], heap = h, nextAddr = 0, changed = False, notified = 0,
             aborts = [], transitions = []\<rparr>))"

section \<open>The comparator and the sort\<close>

text \<open>\<^verbatim>\<open>JobList.Less(i, j)\<close>, on the jobs at the two indices.\<close>

definition Less :: "(addr \<Rightarrow> Job) \<Rightarrow> addr \<Rightarrow> addr \<Rightarrow> bool" where
  "Less h a b =
     (if Type (h a) = UpdateSourceJobType then True
      else CreateTime (h a) < CreateTime (h b))"

text \<open>
  \<^verbatim>\<open>sort.Sort\<close> is Go's standard library. Its \<^verbatim>\<open>insertionSort\<close> is
  \<^verbatim>\<open>for i := a+1; i < b; i++ { for j := i; j > a && Less(j, j-1); j-- { Swap(j, j-1) } }\<close>,
  and on a slice of fewer than seven elements \<^verbatim>\<open>sort.Sort\<close> is that loop alone in every
  release of Go (fewer than thirteen since Go 1.19). \<open>bubble\<close> is the inner loop: the
  element \<open>x\<close> moves left through the prefix, which is given last element first.
  The general theorems below use only that the sort returns a permutation, which holds
  of every release on every slice; the order of the result is read off only on short lists.
\<close>

fun bubble :: "('a \<Rightarrow> 'a \<Rightarrow> bool) \<Rightarrow> 'a \<Rightarrow> 'a list \<Rightarrow> 'a list" where
  "bubble lt x [] = [x]"
| "bubble lt x (y # ys) = (if lt x y then y # bubble lt x ys else x # y # ys)"

definition insertionSort :: "('a \<Rightarrow> 'a \<Rightarrow> bool) \<Rightarrow> 'a list \<Rightarrow> 'a list" where
  "insertionSort lt xs = rev (foldl (\<lambda>rp x. bubble lt x rp) [] xs)"

definition sort_Sort :: "(addr \<Rightarrow> Job) \<Rightarrow> addr list \<Rightarrow> addr list" where
  "sort_Sort h xs = insertionSort (Less h) xs"

section \<open>JobQueue\<close>

text \<open>The package fingerprint \<^verbatim>\<open>strings.Join(packages, "")\<close>.\<close>

definition fingerprint :: "string list \<Rightarrow> string" where
  "fingerprint ps = concat ps"

text \<open>The first index whose job satisfies \<open>P\<close>: the search loops of Remove and Raise.\<close>

fun index_of :: "(addr \<Rightarrow> bool) \<Rightarrow> addr list \<Rightarrow> nat option" where
  "index_of P [] = None"
| "index_of P (a # as) =
     (if P a then Some 0 else map_option Suc (index_of P as))"

text \<open>
  The first loop of \<^verbatim>\<open>PendingJobs\<close>: it counts the running jobs, collects the ready
  jobs and the failed jobs that have retries left, and takes one retry from each of the
  latter in the store.
\<close>

fun PendingJobs_scan ::
  "addr list \<Rightarrow> (addr \<Rightarrow> Job) \<Rightarrow> int \<Rightarrow> addr list \<Rightarrow> (addr \<Rightarrow> Job) \<times> int \<times> addr list" where
  "PendingJobs_scan [] h numRunning readyJobs = (h, numRunning, readyJobs)"
| "PendingJobs_scan (a # as) h numRunning readyJobs =
     (case Status (h a) of
        FailedStatus \<Rightarrow>
          (if retry (h a) > 0
           then PendingJobs_scan as (h(a := (h a)\<lparr>retry := retry (h a) - 1\<rparr>)) numRunning
                  (readyJobs @ [a])
           else PendingJobs_scan as h numRunning readyJobs)
      | RunningStatus \<Rightarrow> PendingJobs_scan as h (numRunning + 1) readyJobs
      | ReadyStatus \<Rightarrow> PendingJobs_scan as h numRunning (readyJobs @ [a])
      | _ \<Rightarrow> PendingJobs_scan as h numRunning readyJobs)"

text \<open>
  The second loop:
  \<^verbatim>\<open>for space > 0 && numPending > 0 { space--; numPending--; n++ }\<close>.
\<close>

function PendingJobs_count :: "int \<Rightarrow> int \<Rightarrow> int \<Rightarrow> int" where
  "PendingJobs_count space numPending n =
     (if space > 0 \<and> numPending > 0
      then PendingJobs_count (space - 1) (numPending - 1) (n + 1)
      else n)"
  by pat_completeness auto
termination
  by (relation "measure (\<lambda>(space, numPending, n). nat space)") auto

declare PendingJobs_count.simps [simp del]

text \<open>
  \<^verbatim>\<open>PendingJobs\<close> returns the store (the retry counters have changed) and the slice
  \<^verbatim>\<open>readyJobs[:n]\<close> after \<^verbatim>\<open>sort.Sort\<close>. The log line is left out.
\<close>

definition PendingJobs :: "(addr \<Rightarrow> Job) \<Rightarrow> JobQueue \<Rightarrow> (addr \<Rightarrow> Job) \<times> addr list" where
  "PendingJobs h l =
     (case PendingJobs_scan (Jobs l) h 0 [] of
        (h', numRunning, readyJobs) \<Rightarrow>
          (let space = Cap l - numRunning;
               numPending = int (length readyJobs);
               n = PendingJobs_count space numPending 0
           in (h', sort_Sort h' (take (nat n) readyJobs))))"

definition RunningJobs :: "(addr \<Rightarrow> Job) \<Rightarrow> JobQueue \<Rightarrow> addr list" where
  "RunningJobs h l = filter (\<lambda>a. Status (h a) = RunningStatus) (Jobs l)"

definition Add :: "(addr \<Rightarrow> Job) \<Rightarrow> JobQueue \<Rightarrow> addr \<Rightarrow> error option \<times> JobQueue" where
  "Add h l j =
     (case List.find (\<lambda>b. Type (h b) = Type (h j)
                         \<and> fingerprint (Packages (h b)) = fingerprint (Packages (h j))) (Jobs l) of
        Some b \<Rightarrow> (Some (ExistsError (Type (h b)) (Packages (h b))), l)
      | None \<Rightarrow> (None, l\<lparr>Jobs := sort_Sort h (Jobs l @ [j])\<rparr>))"

text \<open>
  Modelled from the spec: \<^verbatim>\<open>DestroyJob\<close> is not among the sources. The spec has it
  release the backend resources tied to the job; no field of the job changes.
\<close>

definition DestroyJob :: "Job \<Rightarrow> Job" where
  "DestroyJob j = j"

definition Remove :: "(addr \<Rightarrow> Job) \<Rightarrow> JobQueue \<Rightarrow> string \<Rightarrow> error option \<times> (addr \<Rightarrow> Job) \<times> JobQueue" where
  "Remove h l jobId =
     (case index_of (\<lambda>a. Id_job (h a) = jobId) (Jobs l) of
        None \<Rightarrow> (Some NotFoundError, h, l)
      | Some index \<Rightarrow>
          (let job = Jobs l ! index;
               h' = h(job := DestroyJob (h job));
               rest = take index (Jobs l) @ drop (index + 1) (Jobs l)
           in (None, h', l\<lparr>Jobs := sort_Sort h' rest\<rparr>)))"

text \<open>\<^verbatim>\<open>l.Jobs.Swap(0, p)\<close>.\<close>

definition Swap :: "addr list \<Rightarrow> nat \<Rightarrow> nat \<Rightarrow> addr list" where
  "Swap xs i j = xs[i := xs ! j, j := xs ! i]"

definition Raise :: "(addr \<Rightarrow> Job) \<Rightarrow> JobQueue \<Rightarrow> string \<Rightarrow> error option \<times> JobQueue" where
  "Raise h l jobId =
     (case index_of (\<lambda>a. Id_job (h a) = jobId) (Jobs l) of
        None \<Rightarrow> (Some NotFoundError, l)
      | Some p \<Rightarrow> (None, l\<lparr>Jobs := Swap (Jobs l) 0 p\<rparr>))"

definition Find :: "(addr \<Rightarrow> Job) \<Rightarrow> JobQueue \<Rightarrow> string \<Rightarrow> addr option" where
  "Find h l jobId = List.find (\<lambda>a. Id_job (h a) = jobId) (Jobs l)"

section \<open>The state machine\<close>

text \<open>
  Modelled from the spec: \<^verbatim>\<open>ValidTransitionJobState\<close> is not among the sources. The
  table is the spec's: Ready to Running, Paused or End; Running to Succeed, Failed, Paused
  or End; Failed to Ready or End; Paused to Ready or End; Succeed to End; End is terminal.
\<close>

fun ValidTransitionJobState :: "Status \<Rightarrow> Status \<Rightarrow> bool" where
  "ValidTransitionJobState ReadyStatus to =
     (to = RunningStatus \<or> to = PausedStatus \<or> to = EndStatus)"
| "ValidTransitionJobState RunningStatus to =
     (to = SucceedStatus \<or> to = FailedStatus \<or> to = PausedStatus \<or> to = EndStatus)"
| "ValidTransitionJobState FailedStatus to = (to = ReadyStatus \<or> to = EndStatus)"
| "ValidTransitionJobState PausedStatus to = (to = ReadyStatus \<or> to = EndStatus)"
| "ValidTransitionJobState SucceedStatus to = (to = EndStatus)"
| "ValidTransitionJobState EndStatus to = False"

text \<open>
  Modelled from the spec: \<^verbatim>\<open>TransitionJobState\<close> is not among the sources. By the spec
  it checks the table and on an illegal transition returns NotSupport and leaves the job
  untouched; otherwise it applies the on-entry effect, updates the status and marks the
  manager dirty; the model adds the change to \<open>transitions\<close>. The on-entry effect
  on the modelled fields is the spec's "clear next when the target is End and the source
  status is one from which chaining is no longer meaningful"; the spec chains a successor
  only after Succeed, so \<open>chaining_meaningful\<close> is that status alone.
\<close>

definition chaining_meaningful :: "Status \<Rightarrow> bool" where
  "chaining_meaningful s = (s = SucceedStatus)"

definition on_entry :: "Status \<Rightarrow> Status \<Rightarrow> Job \<Rightarrow> Job" where
  "on_entry from to j =
     (if to = EndStatus \<and> \<not> chaining_meaningful from then j\<lparr>next_job := None\<rparr> else j)"

definition TransitionJobState :: "addr \<Rightarrow> Status \<Rightarrow> JobManager \<Rightarrow> error option \<times> JobManager" where
  "TransitionJobState job to m =
     (let j = heap m job in
      if \<not> ValidTransitionJobState (Status j) to then (Some NotSupportError, m)
      else (None, m\<lparr>heap := (heap m)(job := (on_entry (Status j) to j)\<lparr>Status := to\<rparr>),
                     changed := True,
                     transitions := transitions m @ [(job, Status j, to)]\<rparr>))"

section \<open>JobManager\<close>

fun find_in :: "(addr \<Rightarrow> Job) \<Rightarrow> (string \<times> JobQueue) list \<Rightarrow> string \<Rightarrow> addr option" where
  "find_in h [] jobId = None"
| "find_in h ((name, queue) # rest) jobId =
     (case Find h queue jobId of Some job \<Rightarrow> Some job | None \<Rightarrow> find_in h rest jobId)"

definition find_job :: "JobManager \<Rightarrow> string \<Rightarrow> addr option" where
  "find_job m jobId = find_in (heap m) (queues m) jobId"

text \<open>
  The two nested loops of \<^verbatim>\<open>List\<close>: the jobs of all queues, queue after queue.
\<close>

definition all_jobs :: "JobManager \<Rightarrow> addr list" where
  "all_jobs m = concat (map (\<lambda>(name, queue). Jobs queue) (queues m))"

definition List_jobs :: "JobManager \<Rightarrow> addr list" where
  "List_jobs m = sort_Sort (heap m) (all_jobs m)"

fun guest_scan :: "(addr \<Rightarrow> Job) \<Rightarrow> JobType \<Rightarrow> string \<Rightarrow> addr list \<Rightarrow> string" where
  "guest_scan h jobType pList [] = []"
| "guest_scan h jobType pList (job # rest) =
     (if Type (h job) = jobType \<and> fingerprint (Packages (h job)) = pList then Id_job (h job)
      else (case next_job (h job) of
              None \<Rightarrow> guest_scan h jobType pList rest
            | Some nxt \<Rightarrow>
                (if Type (h nxt) = jobType \<and> fingerprint (Packages (h nxt)) = pList
                 then Id_job (h job)
                 else guest_scan h jobType pList rest)))"

definition guest :: "JobManager \<Rightarrow> JobType \<Rightarrow> string list \<Rightarrow> string" where
  "guest m jobType packages = guest_scan (heap m) jobType (fingerprint packages) (List_jobs m)"

definition MarkStart :: "string \<Rightarrow> JobManager \<Rightarrow> error option \<times> JobManager" where
  "MarkStart jobId m =
     (case find_job m jobId of
        None \<Rightarrow> (Some NotFoundError, m)
      | Some job \<Rightarrow>
          (case (if Status (heap m job) \<noteq> ReadyStatus
                 then TransitionJobState job ReadyStatus m else (None, m)) of
             (Some err, m1) \<Rightarrow> (Some err, m1)
           | (None, m1) \<Rightarrow>
               (case map_of (queues m1) (queueName (heap m1 job)) of
                  None \<Rightarrow> (Some NotFoundError, m1)
                | Some queue \<Rightarrow>
                    (case Raise (heap m1) queue jobId of
                       (err, queue') \<Rightarrow>
                         (err, m1\<lparr>queues :=
                                   set_queue (queueName (heap m1 job)) queue' (queues m1)\<rparr>)))))"

definition PauseJob :: "System \<Rightarrow> string \<Rightarrow> JobManager \<Rightarrow> error option \<times> JobManager" where
  "PauseJob sys jobId m =
     (case find_job m jobId of
        None \<Rightarrow> (Some NotFoundError, m)
      | Some job \<Rightarrow>
          (if \<not> ValidTransitionJobState (Status (heap m job)) PausedStatus
           then (Some NotSupportError, m)
           else (let m1 = m\<lparr>aborts := aborts m @ [Id_job (heap m job)]\<rparr>
                 in case Abort sys (Id_job (heap m job)) of
                      Some err \<Rightarrow> (Some err, m1)
                    | None \<Rightarrow> TransitionJobState job PausedStatus m1)))"

definition CleanJob :: "System \<Rightarrow> string \<Rightarrow> JobManager \<Rightarrow> error option \<times> JobManager" where
  "CleanJob sys jobId m =
     (case find_job m jobId of
        None \<Rightarrow> (Some NotFoundError, m)
      | Some job \<Rightarrow>
          (let m1 = (if Status (heap m job) = RunningStatus \<and> Cancelable (heap m job)
                     then snd (PauseJob sys jobId m) else m);
               m2 = (if ValidTransitionJobState (Status (heap m1 job)) EndStatus
                     then m1\<lparr>heap := (heap m1)(job := (heap m1 job)\<lparr>next_job := None\<rparr>)\<rparr>
                     else m1)
           in TransitionJobState job EndStatus m2))"

definition addJob :: "addr option \<Rightarrow> JobManager \<Rightarrow> error option \<times> JobManager" where
  "addJob jo m =
     (case jo of
        None \<Rightarrow> (Some NotFoundError, m)
      | Some j \<Rightarrow>
          (case map_of (queues m) (queueName (heap m j)) of
             None \<Rightarrow> (Some NotFoundError, m)
           | Some queue \<Rightarrow>
               (case Add (heap m) queue j of
                  (Some err, queue') \<Rightarrow> (Some err, m)
                | (None, queue') \<Rightarrow>
                    (None, m\<lparr>queues := set_queue (queueName (heap m j)) queue' (queues m),
                             changed := True\<rparr>))))"

definition removeJob :: "string \<Rightarrow> string \<Rightarrow> JobManager \<Rightarrow> error option \<times> JobManager" where
  "removeJob jobId qn m =
     (case map_of (queues m) qn of
        None \<Rightarrow> (Some NotFoundError, m)
      | Some queue \<Rightarrow>
          (case Remove (heap m) queue jobId of
             (Some err, h', queue') \<Rightarrow> (Some err, m)
           | (None, h', queue') \<Rightarrow>
               (None, m\<lparr>heap := h', queues := set_queue qn queue' (queues m),
                        changed := True\<rparr>)))"

subsection \<open>CreateJob\<close>

text \<open>
  Modelled from the spec: \<^verbatim>\<open>NewJob\<close> is not among the sources. The new job has the
  name, the packages, the type and the queue it is called with and no successor. What
  else the constructor chooses (the id, the creation time, the first status, Cancelable,
  the retry budget) is taken from \<open>tmpl\<close>, so a theorem about \<open>NewJob\<close> holds
  for every such choice.
\<close>

definition NewJob :: "Job \<Rightarrow> string \<Rightarrow> string list \<Rightarrow> JobType \<Rightarrow> string \<Rightarrow> Job" where
  "NewJob tmpl jobName packages jobType qn =
     tmpl\<lparr>Name := jobName, Packages := packages, Type := jobType, queueName := qn,
          next_job := None\<rparr>"

text \<open>A new job gets the next unused address of the store.\<close>

definition alloc :: "Job \<Rightarrow> JobManager \<Rightarrow> addr \<times> JobManager" where
  "alloc j m =
     (nextAddr m, m\<lparr>heap := (heap m)(nextAddr m := j), nextAddr := Suc (nextAddr m)\<rparr>)"

text \<open>
  The switch of \<^verbatim>\<open>CreateJob\<close>; \<open>None\<close> is its default branch. \<open>tmpl\<close> and
  \<open>tmpl'\<close> stand for the first and the second call of \<^verbatim>\<open>NewJob\<close>.
\<close>

definition CreateJob_switch ::
  "Job \<Rightarrow> Job \<Rightarrow> string \<Rightarrow> JobType \<Rightarrow> string list \<Rightarrow> JobManager \<Rightarrow> (addr \<times> JobManager) option" where
  "CreateJob_switch tmpl tmpl' jobName jobType packages m =
     (case jobType of
        DownloadJobType \<Rightarrow>
          Some (alloc (NewJob tmpl jobName packages DownloadJobType DownloadQueue) m)
      | InstallJobType \<Rightarrow>
          (case alloc (NewJob tmpl jobName packages DownloadJobType DownloadQueue) m of
             (job, m1) \<Rightarrow>
               (case alloc (NewJob tmpl' jobName packages InstallJobType SystemChangeQueue) m1 of
                  (nxt, m2) \<Rightarrow>
                    Some (job, m2\<lparr>heap := (heap m2)(job := (heap m2 job)
                                    \<lparr>Id_job := Id_job (heap m2 nxt), next_job := Some nxt\<rparr>)\<rparr>)))
      | RemoveJobType \<Rightarrow>
          Some (alloc (NewJob tmpl jobName packages RemoveJobType SystemChangeQueue) m)
      | UpdateSourceJobType \<Rightarrow>
          Some (alloc (NewJob tmpl jobName [] UpdateSourceJobType LockQueue) m)
      | DistUpgradeJobType \<Rightarrow>
          Some (alloc (NewJob tmpl jobName packages DistUpgradeJobType LockQueue) m)
      | UpdateJobType \<Rightarrow>
          Some (alloc (NewJob tmpl jobName packages UpdateJobType SystemChangeQueue) m)
      | OtherJobType t \<Rightarrow> None)"

text \<open>
  \<^verbatim>\<open>CreateJob\<close> returns the job (a nil pointer is \<open>None\<close>), the error and the state.
  The result of \<^verbatim>\<open>m.addJob(job)\<close> is dropped, as in the source.
\<close>

definition CreateJob ::
  "Job \<Rightarrow> Job \<Rightarrow> string \<Rightarrow> JobType \<Rightarrow> string list \<Rightarrow> JobManager
     \<Rightarrow> addr option \<times> error option \<times> JobManager" where
  "CreateJob tmpl tmpl' jobName jobType packages m =
     (case find_job m (guest m jobType packages) of
        Some job \<Rightarrow>
          (case MarkStart (Id_job (heap m job)) m of (err, m') \<Rightarrow> (Some job, err, m'))
      | None \<Rightarrow>
          (case CreateJob_switch tmpl tmpl' jobName jobType packages m of
             None \<Rightarrow> (None, Some NotSupportError, m)
           | Some (job, m1) \<Rightarrow>
               (case addJob (Some job) m1 of
                  (dropped, m2) \<Rightarrow>
                    (case MarkStart (Id_job (heap m2 job)) m2 of
                       (err, m3) \<Rightarrow> (Some job, err, m3)))))"

subsection \<open>dispatch\<close>

text \<open>
  Modelled from the spec: \<^verbatim>\<open>StartSystemJob\<close> is not among the sources. By the spec the
  backend call transitions the job to Running on success, or to Failed on immediate
  failure; the table has no step from Ready to Failed, and the spec's retry scenario
  reads Ready, Running, Failed, so the job enters Running first.
\<close>

definition StartSystemJob :: "System \<Rightarrow> addr \<Rightarrow> JobManager \<Rightarrow> error option \<times> JobManager" where
  "StartSystemJob sys job m =
     (case TransitionJobState job RunningStatus m of
        (Some err, m1) \<Rightarrow> (Some err, m1)
      | (None, m1) \<Rightarrow>
          (case Start sys (heap m1 job) of
             None \<Rightarrow> (None, m1)
           | Some err \<Rightarrow> (Some err, snd (TransitionJobState job FailedStatus m1))))"

text \<open>The jobs the first loop of \<^verbatim>\<open>dispatch\<close> collects: those with status End.\<close>

definition pendingDeleteJobs :: "JobManager \<Rightarrow> addr list" where
  "pendingDeleteJobs m =
     concat (map (\<lambda>(name, queue). filter (\<lambda>job. Status (heap m job) = EndStatus) (Jobs queue))
               (queues m))"

text \<open>One round of the second loop: remove the job, then admit and start its successor.\<close>

definition reap_one :: "addr \<Rightarrow> JobManager \<Rightarrow> JobManager" where
  "reap_one job m =
     (case removeJob (Id_job (heap m job)) (queueName (heap m job)) m of
        (dropped, m1) \<Rightarrow>
          (case next_job (heap m1 job) of
             None \<Rightarrow> m1
           | Some nxt \<Rightarrow>
               (case addJob (Some nxt) m1 of
                  (dropped', m2) \<Rightarrow> snd (MarkStart (Id_job (heap m2 nxt)) m2))))"

definition dispatch_reap :: "JobManager \<Rightarrow> JobManager" where
  "dispatch_reap m = fold reap_one (pendingDeleteJobs m) m"

text \<open>One job of the list \<^verbatim>\<open>PendingJobs\<close> returned.\<close>

definition start_one :: "System \<Rightarrow> addr \<Rightarrow> JobManager \<Rightarrow> JobManager" where
  "start_one sys job m =
     (let m1 = (if Status (heap m job) = FailedStatus
                then snd (MarkStart (Id_job (heap m job)) m) else m)
      in snd (StartSystemJob sys job m1))"

definition run_queue :: "System \<Rightarrow> JobQueue \<Rightarrow> JobManager \<Rightarrow> JobManager" where
  "run_queue sys queue m =
     (case PendingJobs (heap m) queue of
        (h', jobs) \<Rightarrow> fold (start_one sys) jobs (m\<lparr>heap := h'\<rparr>))"

text \<open>
  One round of the third loop. \<^verbatim>\<open>m.queues[LockQueue]\<close> is a nil pointer when the map
  has no lock queue, and \<^verbatim>\<open>RunningJobs\<close> on it panics: that is \<open>None\<close>.
\<close>

definition schedule_queue :: "System \<Rightarrow> string \<Rightarrow> JobManager \<Rightarrow> JobManager option" where
  "schedule_queue sys name m =
     (case map_of (queues m) name of
        None \<Rightarrow> Some m
      | Some queue \<Rightarrow>
          (if name \<noteq> LockQueue
           then (case map_of (queues m) LockQueue of
                   None \<Rightarrow> None
                 | Some lq \<Rightarrow>
                     (if length (RunningJobs (heap m) lq) \<noteq> 0 then Some m
                      else Some (run_queue sys queue m)))
           else Some (run_queue sys queue m)))"

fun dispatch_schedule :: "System \<Rightarrow> string list \<Rightarrow> JobManager \<Rightarrow> JobManager option" where
  "dispatch_schedule sys [] m = Some m"
| "dispatch_schedule sys (name # names) m =
     (case schedule_queue sys name m of
        None \<Rightarrow> None
      | Some m' \<Rightarrow> dispatch_schedule sys names m')"

text \<open>\<^verbatim>\<open>m.notify\<close> is never nil: \<^verbatim>\<open>NewJobManager\<close> panics on a nil callback.\<close>

definition dispatch_notify :: "JobManager \<Rightarrow> JobManager" where
  "dispatch_notify m =
     (if changed m then m\<lparr>changed := False, notified := Suc (notified m)\<rparr> else m)"

definition dispatch :: "System \<Rightarrow> JobManager \<Rightarrow> JobManager option" where
  "dispatch sys m =
     (let m1 = dispatch_reap m
      in map_option dispatch_notify (dispatch_schedule sys (map fst (queues m1)) m1))"

subsection \<open>Progress callbacks\<close>

text \<open>
  What the backend reports about a job, as far as the modelled fields go.
\<close>

record JobProgressInfo =
  JobId :: string
  Status_info :: Status
  Cancelable_info :: bool

text \<open>
  Modelled from the spec: \<^verbatim>\<open>_UpdateInfo\<close> is not among the sources. By the spec the
  update is applied to the job, the manager is marked dirty when a field changes, and a
  new status goes through \<^verbatim>\<open>TransitionJobState\<close>, an illegal transition being dropped.
\<close>

definition UpdateInfo :: "addr \<Rightarrow> JobProgressInfo \<Rightarrow> JobManager \<Rightarrow> JobManager" where
  "UpdateInfo j info m =
     (let m1 = (if Cancelable_info info \<noteq> Cancelable (heap m j)
                then m\<lparr>heap := (heap m)(j := (heap m j)\<lparr>Cancelable := Cancelable_info info\<rparr>),
                       changed := True\<rparr>
                else m)
      in if Status_info info \<noteq> Status (heap m1 j)
         then snd (TransitionJobState j (Status_info info) m1) else m1)"

definition handleJobProgressInfo :: "JobProgressInfo \<Rightarrow> JobManager \<Rightarrow> JobManager" where
  "handleJobProgressInfo info m =
     (case find_job m (JobId info) of
        None \<Rightarrow> m
      | Some j \<Rightarrow> UpdateInfo j info m)"

section \<open>Runs of the manager\<close>

text \<open>
  What happens to a manager over time: the entry points the facade calls, the ticks of
  the dispatch loop and the callbacks of the backend, one after the other (the mutex of
  the spec serialises them). Each request carries the backend's answers at that moment.
  A run ends in \<open>None\<close> when a tick panics.
\<close>

datatype request =
    ReqCreateJob Job Job string JobType "string list"
  | ReqMarkStart string
  | ReqPauseJob System string
  | ReqCleanJob System string
  | ReqProgress JobProgressInfo
  | ReqDispatch System

fun step :: "request \<Rightarrow> JobManager \<Rightarrow> JobManager option" where
  "step (ReqCreateJob tmpl tmpl' jobName jobType packages) m =
     Some (snd (snd (CreateJob tmpl tmpl' jobName jobType packages m)))"
| "step (ReqMarkStart jobId) m = Some (snd (MarkStart jobId m))"
| "step (ReqPauseJob sys jobId) m = Some (snd (PauseJob sys jobId m))"
| "step (ReqCleanJob sys jobId) m = Some (snd (CleanJob sys jobId m))"
| "step (ReqProgress info) m = Some (handleJobProgressInfo info m)"
| "step (ReqDispatch sys) m = dispatch sys m"

fun run :: "request list \<Rightarrow> JobManager \<Rightarrow> JobManager option" where
  "run [] m = Some m"
| "run (r # rs) m = (case step r m of None \<Rightarrow> None | Some m' \<Rightarrow> run rs m')"

section \<open>Example states\<close>

text \<open>Concrete jobs and states, on which the theorems below are evaluated.\<close>

definition mkJob :: "string \<Rightarrow> JobType \<Rightarrow> string list \<Rightarrow> int \<Rightarrow> Status \<Rightarrow> string \<Rightarrow> Job" where
  "mkJob i t ps ct st qn =
     \<lparr>Id_job = i, Name = [], Packages = ps, CreateTime = ct, Type = t, Status = st,
      Cancelable = True, queueName = qn, retry = 3, next_job = None\<rparr>"

text \<open>What \<^verbatim>\<open>NewJob\<close> chooses in the examples: the id, the creation time, Ready.\<close>

definition ex_tmpl :: "string \<Rightarrow> int \<Rightarrow> Job" where
  "ex_tmpl i ct = mkJob i DownloadJobType [] ct ReadyStatus []"

text \<open>
  Three jobs of the lock queue: a DistUpgrade created at time 1, an UpdateSource created
  at time 2 and a second DistUpgrade, of other packages, created at time 3.
\<close>

definition ex_heap_lock :: "addr \<Rightarrow> Job" where
  "ex_heap_lock =
     (\<lambda>a. mkJob ''d'' DistUpgradeJobType [] 1 ReadyStatus LockQueue)
       (1 := mkJob ''u'' UpdateSourceJobType [] 2 ReadyStatus LockQueue,
        2 := mkJob ''d2'' DistUpgradeJobType [''x''] 3 ReadyStatus LockQueue)"

text \<open>A manager whose download queue holds one Ready Download job of the package a.\<close>

definition ex_heap_download :: "addr \<Rightarrow> Job" where
  "ex_heap_download = (\<lambda>a. mkJob ''1'' DownloadJobType [''a''] 1 ReadyStatus DownloadQueue)"

definition ex_m_download :: JobManager where
  "ex_m_download =
     (NewJobManager ex_heap_download)
       \<lparr>queues := set_queue DownloadQueue \<lparr>Name_queue = DownloadQueue, Jobs = [0], Cap = 3\<rparr>
                    (queues (NewJobManager ex_heap_download)),
        nextAddr := 1\<rparr>"

section \<open>Auxiliary notions\<close>

text \<open>
  Relations between two states, for the properties below. \<open>soft j j'\<close>: the job has
  kept its identity (id, name, packages, creation time, type, queue) and its successor
  is the same or gone. \<open>quiet m m'\<close>: no job was allocated, admitted or removed; the
  job lists of the queues were at most permuted and the jobs changed softly.
\<close>

definition soft :: "Job \<Rightarrow> Job \<Rightarrow> bool" where
  "soft j j' \<longleftrightarrow>
     Id_job j' = Id_job j \<and> Name j' = Name j \<and> Packages j' = Packages j
     \<and> CreateTime j' = CreateTime j \<and> Type j' = Type j \<and> queueName j' = queueName j
     \<and> (next_job j' = None \<or> next_job j' = next_job j)"

definition same_queue :: "JobQueue \<Rightarrow> JobQueue \<Rightarrow> bool" where
  "same_queue q q' \<longleftrightarrow> mset (Jobs q') = mset (Jobs q) \<and> Cap q' = Cap q"

definition quiet :: "JobManager \<Rightarrow> JobManager \<Rightarrow> bool" where
  "quiet m m' \<longleftrightarrow>
     nextAddr m' = nextAddr m
     \<and> map fst (queues m') = map fst (queues m)
     \<and> (\<forall>a. soft (heap m a) (heap m' a))
     \<and> (\<forall>n. rel_option same_queue (map_of (queues m) n) (map_of (queues m') n))
     \<and> mset (all_jobs m') = mset (all_jobs m)"

text \<open>
  The candidates of \<^verbatim>\<open>PendingJobs\<close>, in the order of the queue: the Ready jobs and the
  Failed jobs with a retry left. \<open>spend_retry\<close> is the store after one call: each
  Failed job of the list that has a retry left has lost one.
\<close>

definition candidates :: "(addr \<Rightarrow> Job) \<Rightarrow> JobQueue \<Rightarrow> addr list" where
  "candidates h l =
     filter (\<lambda>a. Status (h a) = ReadyStatus \<or> (Status (h a) = FailedStatus \<and> 0 < retry (h a)))
       (Jobs l)"

definition spend_retry :: "(addr \<Rightarrow> Job) \<Rightarrow> addr list \<Rightarrow> addr \<Rightarrow> Job" where
  "spend_retry h as a =
     (if a \<in> set as \<and> Status (h a) = FailedStatus \<and> 0 < retry (h a)
      then (h a)\<lparr>retry := retry (h a) - 1\<rparr> else h a)"


text \<open>
  The selection as the spec words it: sort the candidates by the global ordering
  (UpdateSource first, then ascending creation time) and return the first
  \<open>min(space, len(candidates))\<close> of them.
\<close>

definition global_sort :: "(addr \<Rightarrow> Job) \<Rightarrow> addr list \<Rightarrow> addr list" where
  "global_sort h xs =
     sort_key (\<lambda>a. CreateTime (h a)) (filter (\<lambda>a. Type (h a) = UpdateSourceJobType) xs)
     @ sort_key (\<lambda>a. CreateTime (h a)) (filter (\<lambda>a. Type (h a) \<noteq> UpdateSourceJobType) xs)"

definition PendingJobs_spec :: "(addr \<Rightarrow> Job) \<Rightarrow> JobQueue \<Rightarrow> addr list" where
  "PendingJobs_spec h l =
     take (nat (min (Cap l - int (length (RunningJobs h l))) (int (length (candidates h l)))))
       (global_sort h (candidates h l))"

text \<open>The store after \<open>n\<close> calls of \<^verbatim>\<open>PendingJobs\<close> on a queue, nothing else in between.\<close>

fun PendingJobs_times :: "nat \<Rightarrow> (addr \<Rightarrow> Job) \<Rightarrow> JobQueue \<Rightarrow> addr \<Rightarrow> Job" where
  "PendingJobs_times 0 h l = h"
| "PendingJobs_times (Suc n) h l = PendingJobs_times n (fst (PendingJobs h l)) l"

text \<open>
  Two Ready downloads created at times 1 and 2, in a download queue of capacity 1;
  \<open>ex_queue_raised\<close> is the queue after the younger job was raised.
\<close>

definition ex_heap_two :: "addr \<Rightarrow> Job" where
  "ex_heap_two =
     (\<lambda>a. mkJob ''1'' DownloadJobType [''a''] 1 ReadyStatus DownloadQueue)
       (1 := mkJob ''2'' DownloadJobType [''b''] 2 ReadyStatus DownloadQueue)"

definition ex_queue_two :: JobQueue where
  "ex_queue_two = \<lparr>Name_queue = DownloadQueue, Jobs = [0, 1], Cap = 1\<rparr>"

definition ex_queue_raised :: JobQueue where
  "ex_queue_raised = snd (Raise ex_heap_two ex_queue_two ''2'')"

text \<open>
  The same queue with the older job Failed, two retries left, and the younger job
  Running, so that the queue has no space.
\<close>

definition ex_heap_failed :: "addr \<Rightarrow> Job" where
  "ex_heap_failed =
     (\<lambda>a. (mkJob ''1'' DownloadJobType [''a''] 1 FailedStatus DownloadQueue)\<lparr>retry := 2\<rparr>)
       (1 := mkJob ''2'' DownloadJobType [''b''] 2 RunningStatus DownloadQueue)"

text \<open>
  \<open>abandoned s m\<close>: the job at \<open>s\<close> was allocated, is in no queue, and is nobody's
  successor.
\<close>

definition abandoned :: "addr \<Rightarrow> JobManager \<Rightarrow> bool" where
  "abandoned s m \<longleftrightarrow>
     s \<notin> set (all_jobs m) \<and> (\<forall>a. next_job (heap m a) \<noteq> Some s) \<and> s < nextAddr m"

text \<open>
  \<open>status_only m m'\<close>: no job was allocated, the queue names are the same, and of
  the jobs in the store at most the status has changed.
\<close>

definition status_only :: "JobManager \<Rightarrow> JobManager \<Rightarrow> bool" where
  "status_only m m' \<longleftrightarrow>
     nextAddr m' = nextAddr m \<and> map fst (queues m') = map fst (queues m)
     \<and> (\<forall>a. \<exists>st. heap m' a = (heap m a)\<lparr>Status := st\<rparr>)"

text \<open>Backends that always succeed and that always fail.\<close>

definition sys_ok :: System where
  "sys_ok = \<lparr>Abort = (\<lambda>i. None), Start = (\<lambda>j. None)\<rparr>"

definition sys_fail :: System where
  "sys_fail = \<lparr>Abort = (\<lambda>i. Some (BackendError ''abort'')),
               Start = (\<lambda>j. Some (BackendError ''start''))\<rparr>"

text \<open>
  The download queue of \<open>ex_m_download\<close> with its job Running and not Cancelable;
  and with its job Running, Cancelable and followed by a successor at address 1 that
  is in no queue.
\<close>

definition ex_m_running :: JobManager where
  "ex_m_running =
     ex_m_download\<lparr>heap := (\<lambda>a. (mkJob ''1'' DownloadJobType [''a''] 1 RunningStatus DownloadQueue)
                               \<lparr>Cancelable := False\<rparr>)\<rparr>"

definition ex_m_chain :: JobManager where
  "ex_m_chain =
     ex_m_download\<lparr>heap := (\<lambda>a. mkJob ''1'' InstallJobType [''a''] 2 ReadyStatus SystemChangeQueue)
                            (0 := (mkJob ''1'' DownloadJobType [''a''] 1 RunningStatus DownloadQueue)
                                    \<lparr>next_job := Some 1\<rparr>),
                   nextAddr := 2\<rparr>"

text \<open>The manager as \<^verbatim>\<open>NewJobManager\<close> leaves it: three empty queues.\<close>

definition ex_m_empty :: JobManager where
  "ex_m_empty = NewJobManager ex_heap_download"

text \<open>
  \<open>sched_rel S m m'\<close>: the queues were kept, every job that was Running is Running,
  and a job that has become Running is one of \<open>S\<close>.
\<close>

definition sched_rel :: "addr set \<Rightarrow> JobManager \<Rightarrow> JobManager \<Rightarrow> bool" where
  "sched_rel S m m' \<longleftrightarrow>
     quiet m m'
     \<and> (\<forall>a. Status (heap m a) = RunningStatus \<longrightarrow> Status (heap m' a) = RunningStatus)
     \<and> (\<forall>a. Status (heap m' a) = RunningStatus \<longrightarrow> a \<in> S \<or> Status (heap m a) = RunningStatus)"

text \<open>
  A DistUpgrade job Running in the lock queue and a Ready download in the download queue.
\<close>

definition ex_m_lock :: JobManager where
  "ex_m_lock =
     \<lparr>queues = [(DownloadQueue, \<lparr>Name_queue = DownloadQueue, Jobs = [1], Cap = 3\<rparr>),
                (SystemChangeQueue, NewJobQueue SystemChangeQueue 1),
                (LockQueue, \<lparr>Name_queue = LockQueue, Jobs = [0], Cap = 1\<rparr>)],
      heap = (\<lambda>a. mkJob ''2'' DownloadJobType [''b''] 2 ReadyStatus DownloadQueue)
               (0 := mkJob ''1'' DistUpgradeJobType [] 1 RunningStatus LockQueue),
      nextAddr = 2, changed = False, notified = 0, aborts = [],
      transitions = []\<rparr>"













section \<open>Properties\<close>

subsection \<open>Errors\<close>

lemma TransitionJobState_error:
  "TransitionJobState job to m = (Some e, m') \<Longrightarrow> e = NotSupportError"
  by (simp add: TransitionJobState_def Let_def split: if_splits)

lemma Raise_error:
  "Raise h l i = (Some e, l') \<Longrightarrow> e = NotFoundError"
  by (auto simp: Raise_def split: option.splits)

lemma MarkStart_error:
  "MarkStart i m = (Some e, m') \<Longrightarrow> e = NotFoundError \<or> e = NotSupportError"
  by (auto simp: MarkStart_def split: option.splits prod.splits if_splits
        dest: Raise_error TransitionJobState_error)

lemma MarkStart_error_fst:
  "fst (MarkStart i m) \<noteq> Some (ExistsError t ps)"
  by (cases "MarkStart i m") (auto dest: MarkStart_error)

subsection \<open>The sort returns a permutation\<close>

lemma mset_bubble: "mset (bubble lt x ys) = add_mset x (mset ys)"
  by (induction ys) auto

lemma mset_foldl_bubble:
  "mset (foldl (\<lambda>rp x. bubble lt x rp) acc xs) = mset acc + mset xs"
  by (induction xs arbitrary: acc) (auto simp: mset_bubble)

lemma mset_insertionSort: "mset (insertionSort lt xs) = mset xs"
  by (simp add: insertionSort_def mset_foldl_bubble)

lemma mset_sort_Sort: "mset (sort_Sort h xs) = mset xs"
  by (simp add: sort_Sort_def mset_insertionSort)

lemma set_sort_Sort: "set (sort_Sort h xs) = set xs"
  using mset_sort_Sort [of h xs] by (metis set_mset_mset)

lemma length_sort_Sort: "length (sort_Sort h xs) = length xs"
  using mset_sort_Sort [of h xs] by (metis size_mset)

lemma distinct_sort_Sort: "distinct (sort_Sort h xs) = distinct xs"
  using mset_sort_Sort [of h xs] by (metis distinct_count_atmost_1 set_mset_mset)

subsection \<open>Searching a job list\<close>

lemma index_of_Some:
  "index_of P xs = Some i \<Longrightarrow> i < length xs \<and> P (xs ! i)"
  by (induction xs arbitrary: i) (auto split: if_splits)


lemma index_of_first:
  "index_of P xs = Some i \<Longrightarrow> k < i \<Longrightarrow> \<not> P (xs ! k)"
proof (induction xs arbitrary: i k)
  case Nil
  then show ?case by simp
next
  case (Cons a as)
  then show ?case by (cases k) (auto split: if_splits)
qed

lemma mset_Swap:
  "i < length xs \<Longrightarrow> j < length xs \<Longrightarrow> mset (Swap xs i j) = mset xs"
  by (simp add: Swap_def mset_swap)

lemma mset_Swap_0:
  "p < length xs \<Longrightarrow> mset (Swap xs 0 p) = mset xs"
  by (rule mset_Swap) auto

lemma Raise_mset:
  "Raise h l i = (e, l') \<Longrightarrow> mset (Jobs l') = mset (Jobs l) \<and> Cap l' = Cap l"
  by (auto simp: Raise_def mset_Swap_0 split: option.splits dest!: index_of_Some)

subsection \<open>The queue map\<close>

lemma map_of_set_queue:
  "map_of (set_queue name q qs) n = (if n = name then Some q else map_of qs n)"
  by (induction qs) auto

lemma map_fst_set_queue:
  "map_of qs name = Some q0 \<Longrightarrow> map fst (set_queue name q qs) = map fst qs"
  by (induction qs) (auto split: if_splits)

lemma mset_concat_set_queue:
  "map_of qs name = Some q \<Longrightarrow>
   mset (concat (map (\<lambda>(n, queue). Jobs queue) (set_queue name q' qs))) + mset (Jobs q)
     = mset (concat (map (\<lambda>(n, queue). Jobs queue) qs)) + mset (Jobs q')"
  by (induction qs) (auto split: if_splits)

lemma map_of_in_all_jobs:
  "map_of (queues m) name = Some q \<Longrightarrow> set (Jobs q) \<subseteq> set (all_jobs m)"
  by (auto simp: all_jobs_def dest!: map_of_SomeD)

subsection \<open>The state machine\<close>

lemma ValidTransitionJobState_Paused:
  "ValidTransitionJobState s PausedStatus = (s = ReadyStatus \<or> s = RunningStatus)"
  by (cases s) auto

lemma ValidTransitionJobState_End:
  "ValidTransitionJobState s EndStatus = (s \<noteq> EndStatus)"
  by (cases s) auto

lemma ValidTransitionJobState_Ready:
  "ValidTransitionJobState s ReadyStatus = (s = FailedStatus \<or> s = PausedStatus)"
  by (cases s) auto

lemma ValidTransitionJobState_Running:
  "ValidTransitionJobState s RunningStatus = (s = ReadyStatus)"
  by (cases s) auto

lemma ValidTransitionJobState_Failed:
  "ValidTransitionJobState s FailedStatus = (s = RunningStatus)"
  by (cases s) auto


lemma TransitionJobState_not_End:
  "to \<noteq> EndStatus \<Longrightarrow>
   heap (snd (TransitionJobState job to m)) a
     = (heap m a)\<lparr>Status := Status (heap (snd (TransitionJobState job to m)) a)\<rparr>"
  by (simp add: TransitionJobState_def Let_def on_entry_def)

lemma TransitionJobState_Status:
  "Status (heap (snd (TransitionJobState job to m)) a)
     = (if a = job \<and> ValidTransitionJobState (Status (heap m job)) to then to
        else Status (heap m a))"
  by (simp add: TransitionJobState_def Let_def on_entry_def)

lemma TransitionJobState_next:
  "next_job (heap (snd (TransitionJobState job to m)) a) = None
   \<or> next_job (heap (snd (TransitionJobState job to m)) a) = next_job (heap m a)"
  by (simp add: TransitionJobState_def Let_def on_entry_def)

subsection \<open>Operations that keep the queues\<close>

lemma soft_refl: "soft j j"
  by (simp add: soft_def)

lemma soft_trans: "soft j j' \<Longrightarrow> soft j' j'' \<Longrightarrow> soft j j''"
  by (auto simp: soft_def)

lemma same_queue_refl: "same_queue q q"
  by (simp add: same_queue_def)

lemma same_queue_trans: "same_queue q q' \<Longrightarrow> same_queue q' q'' \<Longrightarrow> same_queue q q''"
  by (simp add: same_queue_def)

lemma rel_option_same_queue_refl: "rel_option same_queue x x"
  by (cases x) (simp_all add: same_queue_refl)

lemma rel_option_same_queue_trans:
  "rel_option same_queue x y \<Longrightarrow> rel_option same_queue y z \<Longrightarrow> rel_option same_queue x z"
  by (cases x; cases y; cases z) (auto intro: same_queue_trans)

lemma quiet_refl: "quiet m m"
  by (simp add: quiet_def soft_refl rel_option_same_queue_refl)

lemma quiet_trans:
  assumes "quiet m m'" and "quiet m' m''"
  shows "quiet m m''"
proof -
  have "soft (heap m a) (heap m'' a)" for a
    using assms soft_trans [of "heap m a" "heap m' a" "heap m'' a"] by (simp add: quiet_def)
  moreover have "rel_option same_queue (map_of (queues m) n) (map_of (queues m'') n)" for n
    using assms rel_option_same_queue_trans [of "map_of (queues m) n" "map_of (queues m') n"]
    by (simp add: quiet_def)
  ultimately show ?thesis
    using assms by (simp add: quiet_def)
qed

lemma quiet_heap_only:
  "\<forall>a. soft (heap m a) (h' a) \<Longrightarrow> quiet m (m\<lparr>heap := h'\<rparr>)"
  by (simp add: quiet_def all_jobs_def rel_option_same_queue_refl)

lemma quiet_changed: "quiet m (m\<lparr>changed := c\<rparr>)"
  by (simp add: quiet_def all_jobs_def rel_option_same_queue_refl soft_refl)

lemma quiet_notified: "quiet m (m\<lparr>notified := c\<rparr>)"
  by (simp add: quiet_def all_jobs_def rel_option_same_queue_refl soft_refl)

lemma quiet_aborts: "quiet m (m\<lparr>aborts := c\<rparr>)"
  by (simp add: quiet_def all_jobs_def rel_option_same_queue_refl soft_refl)

lemma quiet_set_queue:
  assumes "map_of (queues m) name = Some q" and "same_queue q q'"
  shows "quiet m (m\<lparr>queues := set_queue name q' (queues m)\<rparr>)"
proof -
  have "mset (all_jobs (m\<lparr>queues := set_queue name q' (queues m)\<rparr>)) + mset (Jobs q)
          = mset (all_jobs m) + mset (Jobs q')"
    using mset_concat_set_queue [OF assms(1)] by (simp add: all_jobs_def)
  with assms(2) have "mset (all_jobs (m\<lparr>queues := set_queue name q' (queues m)\<rparr>)) = mset (all_jobs m)"
    by (simp add: same_queue_def)
  with assms show ?thesis
    by (auto simp: quiet_def soft_refl map_fst_set_queue map_of_set_queue rel_option_same_queue_refl)
qed

lemma soft_on_entry_Status: "soft j ((on_entry from to j)\<lparr>Status := to\<rparr>)"
  by (simp add: soft_def on_entry_def)

lemma TransitionJobState_quiet: "quiet m (snd (TransitionJobState job to m))"
proof -
  have "quiet m (m\<lparr>heap := (heap m)(job := (on_entry (Status (heap m job)) to (heap m job))\<lparr>Status := to\<rparr>)\<rparr>)"
    by (rule quiet_heap_only) (simp add: soft_refl soft_on_entry_Status)
  then have "quiet m (m\<lparr>heap := (heap m)(job := (on_entry (Status (heap m job)) to (heap m job))\<lparr>Status := to\<rparr>),
                changed := True, transitions := t\<rparr>)" for t
    by (simp add: quiet_def all_jobs_def)
  then show ?thesis
    by (simp add: TransitionJobState_def Let_def quiet_refl)
qed

lemma Raise_same_queue: "same_queue l (snd (Raise h l i))"
  using Raise_mset [of h l i "fst (Raise h l i)" "snd (Raise h l i)"]
  by (simp add: same_queue_def)

lemma MarkStart_quiet: "quiet m (snd (MarkStart i m))"
proof (cases "find_job m i")
  case None
  then show ?thesis by (simp add: MarkStart_def quiet_refl)
next
  case (Some job)
  define r where "r = (if Status (heap m job) \<noteq> ReadyStatus
                 then TransitionJobState job ReadyStatus m else (None, m))"
  have q1: "quiet m (snd r)"
    by (simp add: r_def TransitionJobState_quiet quiet_refl)
  show ?thesis
  proof (cases "fst r")
    case (Some err)
    with \<open>find_job m i = Some job\<close> q1 show ?thesis
      by (cases r) (simp add: MarkStart_def r_def [symmetric])
  next
    case None
    show ?thesis
    proof (cases "map_of (queues (snd r)) (queueName (heap (snd r) job))")
      case N: None
      with None \<open>find_job m i = Some job\<close> q1 show ?thesis
        by (cases r) (simp add: MarkStart_def r_def [symmetric])
    next
      case S: (Some queue)
      have "quiet (snd r) ((snd r)\<lparr>queues := set_queue (queueName (heap (snd r) job))
               (snd (Raise (heap (snd r)) queue i)) (queues (snd r))\<rparr>)"
        by (rule quiet_set_queue [OF S Raise_same_queue])
      with q1 have "quiet m ((snd r)\<lparr>queues := set_queue (queueName (heap (snd r) job))
               (snd (Raise (heap (snd r)) queue i)) (queues (snd r))\<rparr>)"
        by (rule quiet_trans)
      with None S \<open>find_job m i = Some job\<close> show ?thesis
        by (cases r) (simp add: MarkStart_def r_def [symmetric] case_prod_beta)
    qed
  qed
qed

lemma PauseJob_quiet: "quiet m (snd (PauseJob sys i m))"
proof -
  have "quiet m (snd (TransitionJobState job PausedStatus (m\<lparr>aborts := c\<rparr>)))" for job c
    using quiet_aborts TransitionJobState_quiet by (rule quiet_trans)
  then show ?thesis
    by (simp add: PauseJob_def Let_def quiet_refl quiet_aborts split: option.splits)
qed

lemma CleanJob_quiet: "quiet m (snd (CleanJob sys i m))"
proof (cases "find_job m i")
  case None
  then show ?thesis by (simp add: CleanJob_def quiet_refl)
next
  case (Some job)
  define m1 where "m1 = (if Status (heap m job) = RunningStatus \<and> Cancelable (heap m job)
                     then snd (PauseJob sys i m) else m)"
  define m2 where "m2 = (if ValidTransitionJobState (Status (heap m1 job)) EndStatus
                     then m1\<lparr>heap := (heap m1)(job := (heap m1 job)\<lparr>next_job := None\<rparr>)\<rparr>
                     else m1)"
  have "quiet m m1" by (simp add: m1_def PauseJob_quiet quiet_refl)
  moreover have "quiet m1 m2"
    unfolding m2_def by (auto intro!: quiet_heap_only simp: quiet_refl soft_def)
  moreover have "quiet m2 (snd (TransitionJobState job EndStatus m2))"
    by (rule TransitionJobState_quiet)
  ultimately have "quiet m (snd (TransitionJobState job EndStatus m2))"
    by (blast intro: quiet_trans)
  moreover have "CleanJob sys i m = TransitionJobState job EndStatus m2"
    unfolding m2_def m1_def by (simp add: CleanJob_def Some Let_def)
  ultimately show ?thesis by simp
qed

lemma handleJobProgressInfo_quiet: "quiet m (handleJobProgressInfo info m)"
proof -
  have "quiet m (UpdateInfo j info m)" for j
  proof -
    define m1 where "m1 = (if Cancelable_info info \<noteq> Cancelable (heap m j)
                then m\<lparr>heap := (heap m)(j := (heap m j)\<lparr>Cancelable := Cancelable_info info\<rparr>),
                       changed := True\<rparr>
                else m)"
    have "quiet m (m\<lparr>heap := (heap m)(j := (heap m j)\<lparr>Cancelable := Cancelable_info info\<rparr>)\<rparr>)"
      by (rule quiet_heap_only) (simp add: soft_def)
    then have B: "quiet m (m\<lparr>heap := (heap m)(j := (heap m j)\<lparr>Cancelable := Cancelable_info info\<rparr>),
                       changed := True\<rparr>)"
      by (simp add: quiet_def all_jobs_def)
    have "quiet m m1"
    proof (cases "Cancelable_info info = Cancelable (heap m j)")
      case True
      then show ?thesis by (simp add: m1_def quiet_refl)
    next
      case False
      with B show ?thesis by (simp add: m1_def)
    qed
    then show ?thesis
      unfolding UpdateInfo_def m1_def [symmetric] Let_def
      by (auto intro: quiet_trans TransitionJobState_quiet)
  qed
  then show ?thesis
    by (simp add: handleJobProgressInfo_def quiet_refl split: option.splits)
qed

subsection \<open>PendingJobs\<close>

lemma PendingJobs_count_eq:
  "PendingJobs_count space numPending n = n + max 0 (min space numPending)"
proof (induction space numPending n rule: PendingJobs_count.induct)
  case (1 space numPending n)
  show ?case
  proof (cases "space > 0 \<and> numPending > 0")
    case True
    with "1" show ?thesis
      by (subst PendingJobs_count.simps) simp
  next
    case False
    then show ?thesis
      by (subst PendingJobs_count.simps) auto
  qed
qed

lemma PendingJobs_scan_distinct:
  "distinct as \<Longrightarrow>
   PendingJobs_scan as h r acc =
     (spend_retry h as,
      r + int (length (filter (\<lambda>a. Status (h a) = RunningStatus) as)),
      acc @ filter (\<lambda>a. Status (h a) = ReadyStatus
                        \<or> (Status (h a) = FailedStatus \<and> 0 < retry (h a))) as)"
proof (induction as arbitrary: h r acc)
  case Nil
  then show ?case by (simp add: spend_retry_def)
next
  case (Cons a as)
  then have a: "a \<notin> set as" and d: "distinct as" by simp_all
  show ?case
  proof (cases "Status (h a) = FailedStatus \<and> 0 < retry (h a)")
    case True
    let ?h = "h(a := (h a)\<lparr>retry := retry (h a) - 1\<rparr>)"
    have same: "\<And>b. b \<in> set as \<Longrightarrow> ?h b = h b" using a by auto
    have f1: "filter (\<lambda>a. Status (?h a) = RunningStatus) as = filter (\<lambda>a. Status (h a) = RunningStatus) as"
      by (rule filter_cong) (use a in auto)
    have f2: "filter (\<lambda>a. Status (?h a) = ReadyStatus \<or> (Status (?h a) = FailedStatus \<and> 0 < retry (?h a))) as
            = filter (\<lambda>a. Status (h a) = ReadyStatus \<or> (Status (h a) = FailedStatus \<and> 0 < retry (h a))) as"
      by (rule filter_cong) (use a in auto)
    have h: "spend_retry ?h as = spend_retry h (a # as)"
      using a True by (auto simp: spend_retry_def fun_eq_iff)
    have "PendingJobs_scan as ?h r (acc @ [a]) =
            (spend_retry h (a # as),
             r + int (length (filter (\<lambda>a. Status (h a) = RunningStatus) as)),
             (acc @ [a]) @ filter (\<lambda>a. Status (h a) = ReadyStatus
                        \<or> (Status (h a) = FailedStatus \<and> 0 < retry (h a))) as)"
      using Cons.IH [OF d, of ?h r "acc @ [a]"] unfolding f1 f2 h .
    with True show ?thesis by simp
  next
    case False
    have h: "spend_retry h as = spend_retry h (a # as)"
      using False by (auto simp: spend_retry_def fun_eq_iff)
    from False show ?thesis
      using Cons.IH [OF d, of h] by (cases "Status (h a)") (auto simp: h)
  qed
qed

lemma PendingJobs_distinct:
  assumes "distinct (Jobs l)"
  shows "PendingJobs h l =
     (spend_retry h (Jobs l),
      sort_Sort (spend_retry h (Jobs l))
        (take (min (nat (Cap l - int (length (RunningJobs h l)))) (length (candidates h l)))
           (candidates h l)))"
proof -
  have "nat (max 0 (min (Cap l - int (length (RunningJobs h l))) (int (length (candidates h l)))))
          = min (nat (Cap l - int (length (RunningJobs h l)))) (length (candidates h l))"
    by auto
  then show ?thesis
    by (simp add: PendingJobs_def PendingJobs_scan_distinct [OF assms] PendingJobs_count_eq
        RunningJobs_def candidates_def Let_def)
qed

text \<open>Without the hypothesis that the jobs are distinct: only the retry counters change.\<close>

lemma PendingJobs_scan_soft:
  "PendingJobs_scan as h r acc = (h', r', acc') \<Longrightarrow>
   h' a = (h a)\<lparr>retry := retry (h' a)\<rparr> \<and> set acc' \<subseteq> set acc \<union> set as"
proof (induction as arbitrary: h r acc)
  case Nil
  then show ?case by simp
next
  case (Cons b as)
  show ?case
  proof (cases "Status (h b) = FailedStatus \<and> 0 < retry (h b)")
    case True
    with Cons.prems have "PendingJobs_scan as (h(b := (h b)\<lparr>retry := retry (h b) - 1\<rparr>)) r (acc @ [b]) = (h', r', acc')"
      by simp
    from Cons.IH [OF this] show ?thesis by (auto split: if_splits)
  next
    case False
    then obtain r0 acc0 where "PendingJobs_scan as h r0 acc0 = (h', r', acc')"
        and "set acc0 \<subseteq> set acc \<union> {b}"
      using Cons.prems by (cases "Status (h b)") (auto split: if_splits)
    from Cons.IH [OF this(1)] this(2) show ?thesis by auto
  qed
qed

lemma PendingJobs_soft:
  "PendingJobs h l = (h', jobs) \<Longrightarrow>
   h' a = (h a)\<lparr>retry := retry (h' a)\<rparr> \<and> set jobs \<subseteq> set (Jobs l)"
proof -
  assume p: "PendingJobs h l = (h', jobs)"
  obtain h1 r1 acc1 where s: "PendingJobs_scan (Jobs l) h 0 [] = (h1, r1, acc1)"
    by (cases "PendingJobs_scan (Jobs l) h 0 []") auto
  from p s have "h' = h1" and "set jobs \<subseteq> set acc1"
    by (auto simp: PendingJobs_def Let_def set_sort_Sort dest: in_set_takeD)
  with PendingJobs_scan_soft [OF s, of a] show ?thesis by auto
qed


lemma spend_retry_Status: "Status (spend_retry h as a) = Status (h a)"
  by (simp add: spend_retry_def)

lemma spend_retry_Type: "Type (spend_retry h as a) = Type (h a)"
  by (simp add: spend_retry_def)

lemma spend_retry_CreateTime: "CreateTime (spend_retry h as a) = CreateTime (h a)"
  by (simp add: spend_retry_def)

lemma Less_spend_retry: "Less (spend_retry h as) = Less h"
  by (simp add: Less_def fun_eq_iff spend_retry_Type spend_retry_CreateTime)

lemma sort_Sort_spend_retry: "sort_Sort (spend_retry h as) xs = sort_Sort h xs"
  by (simp add: sort_Sort_def Less_spend_retry)

subsection \<open>The sort on jobs none of which is an UpdateSource job\<close>

lemma set_bubble: "set (bubble lt x ys) = insert x (set ys)"
  using mset_bubble [of lt x ys] by (metis set_mset_add_mset_insert set_mset_mset)

lemma bubble_sorted:
  assumes "Type (h x) \<noteq> UpdateSourceJobType"
    and "sorted_wrt (\<lambda>a b. CreateTime (h b) \<le> CreateTime (h a)) rp"
  shows "sorted_wrt (\<lambda>a b. CreateTime (h b) \<le> CreateTime (h a)) (bubble (Less h) x rp)"
  using assms
proof (induction rp)
  case Nil
  then show ?case by simp
next
  case (Cons y ys)
  show ?case
  proof (cases "Less h x y")
    case True
    with Cons.prems(1) have "CreateTime (h x) < CreateTime (h y)"
      by (simp add: Less_def)
    with True Cons show ?thesis
      by (auto simp: set_bubble)
  next
    case False
    with Cons.prems(1) have "CreateTime (h y) \<le> CreateTime (h x)"
      by (simp add: Less_def)
    with False Cons.prems show ?thesis
      by auto
  qed
qed

lemma foldl_bubble_sorted:
  assumes "\<forall>x\<in>set xs. Type (h x) \<noteq> UpdateSourceJobType"
    and "sorted_wrt (\<lambda>a b. CreateTime (h b) \<le> CreateTime (h a)) acc"
  shows "sorted_wrt (\<lambda>a b. CreateTime (h b) \<le> CreateTime (h a))
           (foldl (\<lambda>rp x. bubble (Less h) x rp) acc xs)"
  using assms
  by (induction xs arbitrary: acc) (simp_all add: bubble_sorted)

lemma sort_Sort_sorted:
  assumes "\<forall>x\<in>set xs. Type (h x) \<noteq> UpdateSourceJobType"
  shows "sorted_wrt (\<lambda>a b. CreateTime (h a) \<le> CreateTime (h b)) (sort_Sort h xs)"
  using foldl_bubble_sorted [OF assms, of "[]"]
  by (simp add: sort_Sort_def insertionSort_def sorted_wrt_rev)

subsection \<open>Repeated selection\<close>

lemma PendingJobs_times_retry:
  assumes "distinct (Jobs l)" and "a \<in> set (Jobs l)"
    and "Status (h a) = FailedStatus" and "0 \<le> retry (h a)"
  shows "Status (PendingJobs_times n h l a) = FailedStatus
         \<and> retry (PendingJobs_times n h l a) = max 0 (retry (h a) - int n)"
  using assms(3,4)
proof (induction n arbitrary: h)
  case 0
  then show ?case by simp
next
  case (Suc n)
  let ?h = "spend_retry h (Jobs l)"
  have s: "Status (?h a) = FailedStatus" and r: "0 \<le> retry (?h a)"
    and v: "retry (?h a) = max 0 (retry (h a) - 1)"
    using Suc.prems assms(2) by (auto simp: spend_retry_def)
  from Suc.IH [of ?h, OF s r] v show ?case
    by (simp add: PendingJobs_distinct [OF assms(1)])
qed

lemma PendingJobs_subset_candidates:
  assumes "distinct (Jobs l)"
  shows "set (snd (PendingJobs h l)) \<subseteq> set (candidates h l)"
  by (auto simp: PendingJobs_distinct [OF assms] set_sort_Sort dest: in_set_takeD)

lemma MarkStart_Failed:
  assumes "find_job m i = Some a" and "Status (heap m a) = FailedStatus"
  shows "Status (heap (snd (MarkStart i m)) a) = ReadyStatus"
  using assms
  by (auto simp: MarkStart_def TransitionJobState_def Let_def on_entry_def
      split: option.splits prod.splits)

subsection \<open>Admission and removal\<close>

lemma Add_effect:
  "Add h l j = (e, l') \<Longrightarrow>
   Cap l' = Cap l \<and> mset (Jobs l') = mset (Jobs l) + (if e = None then {#j#} else {#})"
  by (auto simp: Add_def mset_sort_Sort split: option.splits)

lemma addJob_effect:
  assumes "addJob jo m = (e, m')"
  shows "heap m' = heap m \<and> nextAddr m' = nextAddr m
         \<and> map fst (queues m') = map fst (queues m)
         \<and> mset (all_jobs m') =
             mset (all_jobs m) + (case jo of Some j \<Rightarrow> if e = None then {#j#} else {#} | None \<Rightarrow> {#})"
proof (cases jo)
  case None
  with assms show ?thesis by (simp add: addJob_def)
next
  case (Some j)
  show ?thesis
  proof (cases "map_of (queues m) (queueName (heap m j))")
    case None
    with Some assms show ?thesis by (auto simp: addJob_def)
  next
    case S: (Some queue)
    obtain e1 q1 where a: "Add (heap m) queue j = (e1, q1)"
      by (cases "Add (heap m) queue j") auto
    show ?thesis
    proof (cases e1)
      case (Some err)
      with a S \<open>jo = Some j\<close> assms show ?thesis by (auto simp: addJob_def)
    next
      case None
      with a S \<open>jo = Some j\<close> assms have m': "m' = m\<lparr>queues := set_queue (queueName (heap m j)) q1 (queues m),
                             changed := True\<rparr>" and e: "e = None"
        by (auto simp: addJob_def)
      from Add_effect [OF a] None have "mset (Jobs q1) = mset (Jobs queue) + {#j#}" by simp
      with mset_concat_set_queue [OF S, of q1]
      have "mset (all_jobs m') = mset (all_jobs m) + {#j#}"
        by (simp add: all_jobs_def m')
      with \<open>jo = Some j\<close> e S show ?thesis
        by (simp add: m' map_fst_set_queue)
    qed
  qed
qed

lemma remove_nth_mset:
  "i < length xs \<Longrightarrow> add_mset (xs ! i) (mset (take i xs @ drop (Suc i) xs)) = mset xs"
  by (metis add_mset_add_single id_take_nth_drop mset.simps(2) mset_append union_mset_add_mset_right)

lemma Remove_effect:
  "Remove h l i = (e, h', l') \<Longrightarrow>
   h' = h \<and> Cap l' = Cap l
   \<and> (case e of
         Some err \<Rightarrow> l' = l
       | None \<Rightarrow> (\<exists>x\<in>set (Jobs l). Id_job (h x) = i \<and> mset (Jobs l) = add_mset x (mset (Jobs l'))))"
proof (cases "index_of (\<lambda>a. Id_job (h a) = i) (Jobs l)")
  case None
  assume "Remove h l i = (e, h', l')"
  with None show ?thesis by (auto simp: Remove_def)
next
  case (Some k)
  assume r: "Remove h l i = (e, h', l')"
  from index_of_Some [OF Some] have k: "k < length (Jobs l)" and i: "Id_job (h (Jobs l ! k)) = i"
    by auto
  have h: "h(Jobs l ! k := DestroyJob (h (Jobs l ! k))) = h"
    by (simp add: DestroyJob_def)
  from r Some have e: "e = None" and h': "h' = h"
    and l': "l' = l\<lparr>Jobs := sort_Sort h (take k (Jobs l) @ drop (k + 1) (Jobs l))\<rparr>"
    by (auto simp: Remove_def Let_def h)
  from k have "Jobs l ! k \<in> set (Jobs l)" by simp
  moreover have "mset (Jobs l) = add_mset (Jobs l ! k) (mset (Jobs l'))"
    using remove_nth_mset [OF k] by (simp add: l' mset_sort_Sort)
  ultimately show ?thesis using e h' i by (auto simp: l')
qed

lemma removeJob_effect:
  assumes "removeJob i qn m = (e, m')"
  shows "heap m' = heap m \<and> nextAddr m' = nextAddr m
         \<and> map fst (queues m') = map fst (queues m)
         \<and> mset (all_jobs m') \<subseteq># mset (all_jobs m)"
proof (cases "map_of (queues m) qn")
  case None
  with assms show ?thesis by (simp add: removeJob_def)
next
  case (Some queue)
  obtain e1 h1 q1 where r: "Remove (heap m) queue i = (e1, h1, q1)"
    by (cases "Remove (heap m) queue i") auto
  show ?thesis
  proof (cases e1)
    case S: (Some err)
    with r Some assms show ?thesis by (auto simp: removeJob_def)
  next
    case None
    with r Some assms have m': "m' = m\<lparr>heap := h1, queues := set_queue qn q1 (queues m),
                        changed := True\<rparr>"
      by (auto simp: removeJob_def)
    from Remove_effect [OF r] None obtain x where h1: "h1 = heap m"
      and x: "mset (Jobs queue) = add_mset x (mset (Jobs q1))" by auto
    from mset_concat_set_queue [OF Some, of q1] x
    have "mset (all_jobs m) = add_mset x (mset (all_jobs m'))"
      by (simp add: all_jobs_def m')
    then show ?thesis
      using Some by (simp add: m' h1 map_fst_set_queue)
  qed
qed

subsection \<open>The scheduling phase keeps the queues\<close>

lemma StartSystemJob_quiet: "quiet m (snd (StartSystemJob sys job m))"
proof -
  have "quiet m (snd (TransitionJobState job FailedStatus (snd (TransitionJobState job RunningStatus m))))"
    by (blast intro: quiet_trans TransitionJobState_quiet)
  then show ?thesis
    using TransitionJobState_quiet [of m job RunningStatus]
    by (cases "TransitionJobState job RunningStatus m")
      (auto simp: StartSystemJob_def split: option.splits)
qed

lemma start_one_quiet: "quiet m (start_one sys job m)"
  unfolding start_one_def Let_def
  by (auto intro: quiet_trans MarkStart_quiet StartSystemJob_quiet quiet_refl)

lemma fold_quiet:
  assumes "\<And>x m. quiet m (f x m)"
  shows "quiet m (fold f xs m)"
proof (induction xs arbitrary: m)
  case Nil
  then show ?case by (simp add: quiet_refl)
next
  case (Cons x xs)
  from assms [of m x] Cons [of "f x m"] show ?case
    by (auto intro: quiet_trans)
qed

lemma soft_retry: "h' = h\<lparr>retry := r\<rparr> \<Longrightarrow> soft h h'"
  by (simp add: soft_def)

lemma run_queue_quiet: "quiet m (run_queue sys queue m)"
proof -
  obtain h' jobs where p: "PendingJobs (heap m) queue = (h', jobs)"
    by (cases "PendingJobs (heap m) queue") auto
  have "soft (heap m a) (h' a)" for a
    using PendingJobs_soft [OF p, of a] by (auto intro: soft_retry)
  then have "quiet m (m\<lparr>heap := h'\<rparr>)"
    by (simp add: quiet_heap_only)
  moreover have "quiet (m\<lparr>heap := h'\<rparr>) (fold (start_one sys) jobs (m\<lparr>heap := h'\<rparr>))"
    by (rule fold_quiet) (rule start_one_quiet)
  ultimately show ?thesis
    using p by (auto simp: run_queue_def intro: quiet_trans)
qed

lemma schedule_queue_quiet: "schedule_queue sys name m = Some m' \<Longrightarrow> quiet m m'"
  by (auto simp: schedule_queue_def quiet_refl run_queue_quiet split: option.splits if_splits)

lemma dispatch_schedule_quiet: "dispatch_schedule sys names m = Some m' \<Longrightarrow> quiet m m'"
proof (induction names arbitrary: m)
  case Nil
  then show ?case by (simp add: quiet_refl)
next
  case (Cons name names)
  then show ?case
    by (auto split: option.splits intro: quiet_trans dest: schedule_queue_quiet)
qed

lemma dispatch_notify_quiet: "quiet m (dispatch_notify m)"
  by (simp add: dispatch_notify_def quiet_def all_jobs_def soft_refl rel_option_same_queue_refl)


subsection \<open>MarkStart changes a status at most\<close>

lemma MarkStart_heap:
  "heap (snd (MarkStart i m)) = heap m
   \<or> (\<exists>job. heap (snd (MarkStart i m)) = heap (snd (TransitionJobState job ReadyStatus m)))"
  by (auto simp: MarkStart_def case_prod_beta split: option.splits)

lemma MarkStart_heap_status:
  "heap (snd (MarkStart i m)) a = (heap m a)\<lparr>Status := Status (heap (snd (MarkStart i m)) a)\<rparr>"
  using MarkStart_heap [of i m] TransitionJobState_not_End [of ReadyStatus _ m a]
  by auto

lemma MarkStart_Running:
  "(Status (heap (snd (MarkStart i m)) a) = RunningStatus) = (Status (heap m a) = RunningStatus)"
  using MarkStart_heap [of i m]
  by (auto simp: TransitionJobState_Status ValidTransitionJobState_Ready split: if_splits)

lemma status_only_refl: "status_only m m"
proof -
  have "\<exists>st. heap m a = (heap m a)\<lparr>Status := st\<rparr>" for a
    by (rule exI [of _ "Status (heap m a)"]) simp
  then show ?thesis by (simp add: status_only_def)
qed

lemma status_only_trans:
  assumes "status_only m m'" and "status_only m' m''"
  shows "status_only m m''"
proof -
  have "\<exists>st. heap m'' a = (heap m a)\<lparr>Status := st\<rparr>" for a
  proof -
    from assms(2) obtain st2 where "heap m'' a = (heap m' a)\<lparr>Status := st2\<rparr>"
      unfolding status_only_def by blast
    moreover from assms(1) obtain st1 where "heap m' a = (heap m a)\<lparr>Status := st1\<rparr>"
      unfolding status_only_def by blast
    ultimately have "heap m'' a = (heap m a)\<lparr>Status := st2\<rparr>" by simp
    then show ?thesis ..
  qed
  with assms show ?thesis by (simp add: status_only_def)
qed

lemma status_only_heap_eq:
  "heap m' = heap m \<Longrightarrow> nextAddr m' = nextAddr m \<Longrightarrow> map fst (queues m') = map fst (queues m)
   \<Longrightarrow> status_only m m'"
  using status_only_refl [of m] by (simp add: status_only_def)

lemma MarkStart_status_only: "status_only m (snd (MarkStart i m))"
proof -
  have "\<exists>st. heap (snd (MarkStart i m)) a = (heap m a)\<lparr>Status := st\<rparr>" for a
    using MarkStart_heap_status [of i m a] by (rule exI)
  then show ?thesis
    using MarkStart_quiet [of m i] by (simp add: status_only_def quiet_def)
qed

lemma status_only_next:
  assumes "status_only m m'"
  shows "next_job (heap m' a) = next_job (heap m a)"
proof -
  from assms obtain st where "heap m' a = (heap m a)\<lparr>Status := st\<rparr>"
    unfolding status_only_def by blast
  then show ?thesis by simp
qed

subsection \<open>The reap phase\<close>

lemma reap_one_effect:
  "status_only m (reap_one p m)
   \<and> set (all_jobs (reap_one p m))
       \<subseteq> set (all_jobs m) \<union> (case next_job (heap m p) of None \<Rightarrow> {} | Some s \<Rightarrow> {s})"
proof -
  obtain e1 m1 where r: "removeJob (Id_job (heap m p)) (queueName (heap m p)) m = (e1, m1)"
    by (cases "removeJob (Id_job (heap m p)) (queueName (heap m p)) m") auto
  from removeJob_effect [OF r] have m1: "heap m1 = heap m" "nextAddr m1 = nextAddr m"
    "map fst (queues m1) = map fst (queues m)" "set (all_jobs m1) \<subseteq> set (all_jobs m)"
    using set_mset_mono [of "mset (all_jobs m1)" "mset (all_jobs m)"] by auto
  then have s1: "status_only m m1" by (simp add: status_only_heap_eq)
  show ?thesis
  proof (cases "next_job (heap m p)")
    case None
    with r m1 s1 show ?thesis by (simp add: reap_one_def)
  next
    case (Some s)
    obtain e2 m2 where a: "addJob (Some s) m1 = (e2, m2)"
      by (cases "addJob (Some s) m1") auto
    from addJob_effect [OF a] have m2: "heap m2 = heap m1" "nextAddr m2 = nextAddr m1"
      "map fst (queues m2) = map fst (queues m1)"
      and ms: "mset (all_jobs m2) = mset (all_jobs m1) + (if e2 = None then {#s#} else {#})"
      by auto
    from arg_cong [OF ms, of set_mset] have m2a: "set (all_jobs m2) \<subseteq> set (all_jobs m1) \<union> {s}"
      by (auto split: if_splits)
    from m1 m2 have s2: "status_only m m2" by (simp add: status_only_heap_eq)
    have eq: "reap_one p m = snd (MarkStart (Id_job (heap m2 s)) m2)"
      using r a Some m1 by (simp add: reap_one_def)
    have "mset (all_jobs (reap_one p m)) = mset (all_jobs m2)"
      using MarkStart_quiet [of m2 "Id_job (heap m2 s)"] unfolding eq quiet_def by simp
    from arg_cong [OF this, of set_mset]
    have "set (all_jobs (reap_one p m)) = set (all_jobs m2)" by simp
    with m1(4) m2a have "set (all_jobs (reap_one p m)) \<subseteq> set (all_jobs m) \<union> {s}" by auto
    with Some status_only_trans [OF s2 MarkStart_status_only [of m2 "Id_job (heap m2 s)"]]
    show ?thesis by (simp add: eq)
  qed
qed

lemma fold_reap_one_effect:
  "status_only m (fold reap_one ps m)
   \<and> set (all_jobs (fold reap_one ps m))
       \<subseteq> set (all_jobs m) \<union> {s. \<exists>p\<in>set ps. next_job (heap m p) = Some s}"
proof (induction ps arbitrary: m)
  case Nil
  then show ?case by (simp add: status_only_refl)
next
  case (Cons p ps)
  let ?m1 = "reap_one p m"
  from reap_one_effect [of m p] have s: "status_only m ?m1"
    and a: "set (all_jobs ?m1) \<subseteq> set (all_jobs m) \<union> (case next_job (heap m p) of None \<Rightarrow> {} | Some s \<Rightarrow> {s})"
    by auto
  from Cons [of ?m1] have s': "status_only ?m1 (fold reap_one ps ?m1)"
    and a': "set (all_jobs (fold reap_one ps ?m1))
       \<subseteq> set (all_jobs ?m1) \<union> {s. \<exists>p\<in>set ps. next_job (heap ?m1 p) = Some s}"
    by auto
  have "set (all_jobs (fold reap_one ps ?m1))
       \<subseteq> set (all_jobs m) \<union> {s. \<exists>q\<in>set (p # ps). next_job (heap m q) = Some s}"
    using a a' by (auto simp: status_only_next [OF s] split: option.splits)
  with status_only_trans [OF s s'] show ?case by simp
qed

lemma dispatch_reap_effect:
  "status_only m (dispatch_reap m)
   \<and> set (all_jobs (dispatch_reap m))
       \<subseteq> set (all_jobs m)
          \<union> {s. \<exists>p\<in>set (all_jobs m). Status (heap m p) = EndStatus \<and> next_job (heap m p) = Some s}"
proof -
  have "set (pendingDeleteJobs m) = {p \<in> set (all_jobs m). Status (heap m p) = EndStatus}"
    by (auto simp: pendingDeleteJobs_def all_jobs_def)
  with fold_reap_one_effect [of m "pendingDeleteJobs m"] show ?thesis
    by (auto simp: dispatch_reap_def)
qed

subsection \<open>CreateJob allocates above the old jobs\<close>

lemma CreateJob_switch_effect:
  assumes "CreateJob_switch tmpl tmpl' jobName jobType packages m = Some (job, m1)"
  shows "job = nextAddr m \<and> queues m1 = queues m \<and> nextAddr m < nextAddr m1
         \<and> (\<forall>a. a < nextAddr m \<longrightarrow> heap m1 a = heap m a)
         \<and> (\<forall>a s. next_job (heap m1 a) = Some s \<longrightarrow>
               next_job (heap m a) = Some s \<or> nextAddr m \<le> s)"
  using assms
  by (cases jobType) (auto simp: CreateJob_switch_def alloc_def NewJob_def split: if_splits)


subsection \<open>An abandoned job stays out of the queues\<close>

lemma abandoned_quiet:
  assumes "quiet m m'" and "abandoned s m"
  shows "abandoned s m'"
proof -
  from assms(1) have "mset (all_jobs m') = mset (all_jobs m)" by (simp add: quiet_def)
  from arg_cong [OF this, of set_mset] have "set (all_jobs m') = set (all_jobs m)" by simp
  moreover have "next_job (heap m' a) \<noteq> Some s" for a
  proof -
    from assms(1) have "next_job (heap m' a) = None \<or> next_job (heap m' a) = next_job (heap m a)"
      by (simp add: quiet_def soft_def)
    moreover from assms(2) have "next_job (heap m a) \<noteq> Some s" by (simp add: abandoned_def)
    ultimately show ?thesis by auto
  qed
  moreover from assms(1) have "nextAddr m' = nextAddr m" by (simp add: quiet_def)
  ultimately show ?thesis using assms(2) by (simp add: abandoned_def)
qed

lemma abandoned_dispatch_reap:
  assumes "abandoned s m"
  shows "abandoned s (dispatch_reap m)"
proof -
  from dispatch_reap_effect [of m] have so: "status_only m (dispatch_reap m)"
    and sub: "set (all_jobs (dispatch_reap m))
       \<subseteq> set (all_jobs m)
          \<union> {s. \<exists>p\<in>set (all_jobs m). Status (heap m p) = EndStatus \<and> next_job (heap m p) = Some s}"
    by auto
  from sub assms have "s \<notin> set (all_jobs (dispatch_reap m))"
    by (auto simp: abandoned_def)
  moreover from so have "nextAddr (dispatch_reap m) = nextAddr m" by (simp add: status_only_def)
  ultimately show ?thesis
    using assms by (simp add: abandoned_def status_only_next [OF so])
qed

lemma abandoned_dispatch:
  assumes "abandoned s m" and "dispatch sys m = Some m'"
  shows "abandoned s m'"
proof -
  from assms(2) obtain m2 where
    s: "dispatch_schedule sys (map fst (queues (dispatch_reap m))) (dispatch_reap m) = Some m2"
    and m': "m' = dispatch_notify m2"
    by (auto simp: dispatch_def Let_def)
  from abandoned_dispatch_reap [OF assms(1)] dispatch_schedule_quiet [OF s]
  have "abandoned s m2" by (blast intro: abandoned_quiet)
  with dispatch_notify_quiet [of m2] show ?thesis
    unfolding m' by (blast intro: abandoned_quiet)
qed

lemma abandoned_CreateJob:
  assumes "abandoned s m"
  shows "abandoned s (snd (snd (CreateJob tmpl tmpl' jobName jobType packages m)))"
proof (cases "find_job m (guest m jobType packages)")
  case (Some job)
  then have "snd (snd (CreateJob tmpl tmpl' jobName jobType packages m))
               = snd (MarkStart (Id_job (heap m job)) m)"
    by (simp add: CreateJob_def case_prod_beta)
  with MarkStart_quiet [of m "Id_job (heap m job)"] assms show ?thesis
    by (auto intro: abandoned_quiet)
next
  case None
  show ?thesis
  proof (cases "CreateJob_switch tmpl tmpl' jobName jobType packages m")
    case N: None
    with None assms show ?thesis by (simp add: CreateJob_def)
  next
    case (Some r)
    obtain job m1 where r: "r = (job, m1)" by (cases r) auto
    from CreateJob_switch_effect [OF Some [unfolded r]] have job: "job = nextAddr m"
      and q: "queues m1 = queues m" and n: "nextAddr m < nextAddr m1"
      and nx: "\<forall>a s. next_job (heap m1 a) = Some s \<longrightarrow>
                 next_job (heap m a) = Some s \<or> nextAddr m \<le> s"
      by auto
    obtain e2 m2 where a: "addJob (Some job) m1 = (e2, m2)"
      by (cases "addJob (Some job) m1") auto
    from addJob_effect [OF a] have h2: "heap m2 = heap m1" and n2: "nextAddr m2 = nextAddr m1"
      and ms: "mset (all_jobs m2) = mset (all_jobs m1) + (if e2 = None then {#job#} else {#})"
      by auto
    from arg_cong [OF ms, of set_mset] have "set (all_jobs m2) \<subseteq> set (all_jobs m1) \<union> {job}"
      by (auto split: if_splits)
    moreover have "all_jobs m1 = all_jobs m" by (simp add: all_jobs_def q)
    ultimately have "s \<notin> set (all_jobs m2)"
      using assms job by (auto simp: abandoned_def)
    moreover have "next_job (heap m2 a) \<noteq> Some s" for a
      using nx assms unfolding h2 abandoned_def by (metis not_le)
    moreover have "s < nextAddr m2" using n n2 assms by (simp add: abandoned_def)
    ultimately have "abandoned s m2" by (simp add: abandoned_def)
    moreover have "snd (snd (CreateJob tmpl tmpl' jobName jobType packages m))
               = snd (MarkStart (Id_job (heap m2 job)) m2)"
      using None Some r a by (simp add: CreateJob_def case_prod_beta)
    ultimately show ?thesis
      using MarkStart_quiet [of m2 "Id_job (heap m2 job)"] by (auto intro: abandoned_quiet)
  qed
qed

lemma abandoned_step:
  assumes "abandoned s m" and "step r m = Some m'"
  shows "abandoned s m'"
proof (cases r)
  case (ReqCreateJob tmpl tmpl' jobName jobType packages)
  with assms abandoned_CreateJob show ?thesis by auto
next
  case (ReqMarkStart i)
  with assms MarkStart_quiet [of m i] show ?thesis by (auto intro: abandoned_quiet)
next
  case (ReqPauseJob sys i)
  with assms PauseJob_quiet [of m sys i] show ?thesis by (auto intro: abandoned_quiet)
next
  case (ReqCleanJob sys i)
  with assms CleanJob_quiet [of m sys i] show ?thesis by (auto intro: abandoned_quiet)
next
  case (ReqProgress info)
  with assms handleJobProgressInfo_quiet [of m info] show ?thesis by (auto intro: abandoned_quiet)
next
  case (ReqDispatch sys)
  with assms abandoned_dispatch show ?thesis by auto
qed

lemma abandoned_run:
  "abandoned s m \<Longrightarrow> run rs m = Some m' \<Longrightarrow> abandoned s m'"
proof (induction rs arbitrary: m)
  case Nil
  then show ?case by simp
next
  case (Cons r rs)
  then show ?case
    by (auto split: option.splits dest: abandoned_step)
qed


subsection \<open>PauseJob and CleanJob on a job that was found\<close>

lemma PauseJob_Some:
  assumes "find_job m jobId = Some job"
  shows "PauseJob sys jobId m =
     (if Status (heap m job) \<noteq> ReadyStatus \<and> Status (heap m job) \<noteq> RunningStatus
      then (Some NotSupportError, m)
      else (case Abort sys (Id_job (heap m job)) of
              Some err \<Rightarrow> (Some err, m\<lparr>aborts := aborts m @ [Id_job (heap m job)]\<rparr>)
            | None \<Rightarrow>
                (None, m\<lparr>heap := (heap m)(job := (heap m job)\<lparr>Status := PausedStatus\<rparr>),
                         changed := True,
                         aborts := aborts m @ [Id_job (heap m job)],
                         transitions := transitions m
                                          @ [(job, Status (heap m job), PausedStatus)]\<rparr>)))"
  using assms
  by (auto simp: PauseJob_def ValidTransitionJobState_Paused TransitionJobState_def Let_def
       on_entry_def split: option.splits)

lemma CleanJob_Some:
  assumes "find_job m jobId = Some job"
  shows "CleanJob sys jobId m =
     (let m1 = (if Status (heap m job) = RunningStatus \<and> Cancelable (heap m job)
                then snd (PauseJob sys jobId m) else m)
      in if Status (heap m1 job) = EndStatus then (Some NotSupportError, m1)
         else TransitionJobState job EndStatus
                (m1\<lparr>heap := (heap m1)(job := (heap m1 job)\<lparr>next_job := None\<rparr>)\<rparr>))"
  using assms
  by (auto simp: CleanJob_def ValidTransitionJobState_End TransitionJobState_def Let_def)

subsection \<open>What survives a change of status\<close>

lemma status_only_fields:
  assumes "status_only m m'"
  shows "Id_job (heap m' a) = Id_job (heap m a) \<and> Packages (heap m' a) = Packages (heap m a)
         \<and> Type (heap m' a) = Type (heap m a) \<and> queueName (heap m' a) = queueName (heap m a)
         \<and> next_job (heap m' a) = next_job (heap m a)
         \<and> CreateTime (heap m' a) = CreateTime (heap m a)"
proof -
  from assms obtain st where "heap m' a = (heap m a)\<lparr>Status := st\<rparr>"
    unfolding status_only_def by blast
  then show ?thesis by simp
qed

lemma quiet_Jobs_set:
  assumes "quiet m m'" and "map_of (queues m) name = Some q"
  shows "\<exists>q'. map_of (queues m') name = Some q' \<and> mset (Jobs q') = mset (Jobs q) \<and> Cap q' = Cap q"
proof -
  from assms(1) have "rel_option same_queue (map_of (queues m) name) (map_of (queues m') name)"
    by (simp add: quiet_def)
  with assms(2) show ?thesis
    by (cases "map_of (queues m') name") (auto simp: same_queue_def)
qed

lemma find_None_iff: "(List.find P xs = None) = (\<forall>x\<in>set xs. \<not> P x)"
  by (induction xs) auto

lemma addJob_admits:
  assumes "map_of (queues m) (queueName (heap m j)) = Some q"
    and "\<forall>b\<in>set (Jobs q). \<not> (Type (heap m b) = Type (heap m j)
            \<and> fingerprint (Packages (heap m b)) = fingerprint (Packages (heap m j)))"
  shows "addJob (Some j) m =
           (None, m\<lparr>queues := set_queue (queueName (heap m j))
                       (q\<lparr>Jobs := sort_Sort (heap m) (Jobs q @ [j])\<rparr>) (queues m),
                    changed := True\<rparr>)"
proof -
  from assms(2) have "List.find (\<lambda>b. Type (heap m b) = Type (heap m j)
            \<and> fingerprint (Packages (heap m b)) = fingerprint (Packages (heap m j))) (Jobs q) = None"
    by (simp add: find_None_iff)
  with assms(1) show ?thesis
    by (simp add: addJob_def Add_def)
qed

subsection \<open>The scheduling phase starts jobs of the running queue only\<close>

lemma sched_rel_refl: "sched_rel S m m"
  by (simp add: sched_rel_def quiet_refl)

lemma sched_rel_trans:
  assumes "sched_rel S m m'" and "sched_rel S m' m''"
  shows "sched_rel S m m''"
proof -
  from assms have "quiet m m''" by (auto simp: sched_rel_def intro: quiet_trans)
  moreover from assms have "\<forall>a. Status (heap m a) = RunningStatus \<longrightarrow> Status (heap m'' a) = RunningStatus"
    by (simp add: sched_rel_def)
  moreover from assms have "\<forall>a. Status (heap m'' a) = RunningStatus \<longrightarrow> a \<in> S \<or> Status (heap m a) = RunningStatus"
    unfolding sched_rel_def by blast
  ultimately show ?thesis by (simp add: sched_rel_def)
qed

lemma sched_rel_mono: "sched_rel S m m' \<Longrightarrow> S \<subseteq> T \<Longrightarrow> sched_rel T m m'"
  unfolding sched_rel_def by blast

lemma MarkStart_sched_rel: "sched_rel S m (snd (MarkStart i m))"
  by (simp add: sched_rel_def MarkStart_quiet MarkStart_Running)

lemma StartSystemJob_Status:
  "(Status (heap m a) = RunningStatus \<longrightarrow>
      Status (heap (snd (StartSystemJob sys job m)) a) = RunningStatus)
   \<and> (Status (heap (snd (StartSystemJob sys job m)) a) = RunningStatus \<longrightarrow>
        a = job \<or> Status (heap m a) = RunningStatus)"
proof (cases "ValidTransitionJobState (Status (heap m job)) RunningStatus")
  case False
  then have "StartSystemJob sys job m = (Some NotSupportError, m)"
    by (simp add: StartSystemJob_def TransitionJobState_def)
  then show ?thesis by simp
next
  case True
  then have r: "Status (heap m job) = ReadyStatus"
    by (simp add: ValidTransitionJobState_Running)
  obtain m1 where t: "TransitionJobState job RunningStatus m = (None, m1)"
    using True by (simp add: TransitionJobState_def Let_def)
  then have m1: "m1 = snd (TransitionJobState job RunningStatus m)" by simp
  show ?thesis
  proof (cases "Start sys (heap m1 job)")
    case None
    with t have "snd (StartSystemJob sys job m) = m1"
      by (simp add: StartSystemJob_def)
    with r show ?thesis
      by (auto simp: m1 TransitionJobState_Status split: if_splits)
  next
    case (Some err)
    with t have "snd (StartSystemJob sys job m) = snd (TransitionJobState job FailedStatus m1)"
      by (simp add: StartSystemJob_def)
    with r show ?thesis
      by (auto simp: m1 TransitionJobState_Status split: if_splits)
  qed
qed

lemma StartSystemJob_sched_rel: "sched_rel {job} m (snd (StartSystemJob sys job m))"
  using StartSystemJob_Status [of m _ sys job]
  by (simp add: sched_rel_def StartSystemJob_quiet)

lemma start_one_sched_rel: "sched_rel {job} m (start_one sys job m)"
proof -
  let ?m1 = "if Status (heap m job) = FailedStatus
             then snd (MarkStart (Id_job (heap m job)) m) else m"
  have "sched_rel {job} m ?m1"
    by (simp add: MarkStart_sched_rel sched_rel_refl)
  moreover have "sched_rel {job} ?m1 (snd (StartSystemJob sys job ?m1))"
    by (rule StartSystemJob_sched_rel)
  ultimately have "sched_rel {job} m (snd (StartSystemJob sys job ?m1))"
    by (rule sched_rel_trans)
  then show ?thesis by (simp add: start_one_def Let_def)
qed

lemma fold_start_one_sched_rel:
  "sched_rel (set jobs) m (fold (start_one sys) jobs m)"
proof (induction jobs arbitrary: m)
  case Nil
  then show ?case by (simp add: sched_rel_refl)
next
  case (Cons job jobs)
  have "sched_rel (set (job # jobs)) m (start_one sys job m)"
    by (rule sched_rel_mono [OF start_one_sched_rel]) simp
  moreover have "sched_rel (set (job # jobs)) (start_one sys job m)
                   (fold (start_one sys) jobs (start_one sys job m))"
    by (rule sched_rel_mono [OF Cons]) auto
  ultimately show ?case
    by (auto intro: sched_rel_trans)
qed

lemma run_queue_sched_rel: "sched_rel (set (Jobs queue)) m (run_queue sys queue m)"
proof -
  obtain h' jobs where p: "PendingJobs (heap m) queue = (h', jobs)"
    by (cases "PendingJobs (heap m) queue") auto
  have h': "h' a = (heap m a)\<lparr>retry := retry (h' a)\<rparr>" for a
    using PendingJobs_soft [OF p, of a] by simp
  have st: "Status (h' a) = Status (heap m a)" for a
    using arg_cong [OF h' [of a], of Status] by simp
  have sub: "set jobs \<subseteq> set (Jobs queue)"
    using PendingJobs_soft [OF p, of 0] by simp
  have "soft (heap m a) (h' a)" for a
    using h' [of a] by (auto intro: soft_retry)
  then have "quiet m (m\<lparr>heap := h'\<rparr>)"
    by (simp add: quiet_heap_only)
  then have "sched_rel (set (Jobs queue)) m (m\<lparr>heap := h'\<rparr>)"
    by (simp add: sched_rel_def st)
  moreover have "sched_rel (set (Jobs queue)) (m\<lparr>heap := h'\<rparr>)
                   (fold (start_one sys) jobs (m\<lparr>heap := h'\<rparr>))"
    by (rule sched_rel_mono [OF fold_start_one_sched_rel sub])
  ultimately show ?thesis
    using p by (auto simp: run_queue_def intro: sched_rel_trans)
qed

lemma schedule_queue_locked:
  assumes "map_of (queues m) LockQueue = Some lq"
    and "\<exists>a\<in>set (Jobs lq). Status (heap m a) = RunningStatus"
  shows "\<exists>m'. schedule_queue sys name m = Some m' \<and> sched_rel (set (Jobs lq)) m m'"
proof (cases "map_of (queues m) name")
  case None
  then show ?thesis by (simp add: schedule_queue_def sched_rel_refl)
next
  case (Some queue)
  show ?thesis
  proof (cases "name = LockQueue")
    case True
    with Some assms(1) have "schedule_queue sys name m = Some (run_queue sys lq m)"
      by (simp add: schedule_queue_def)
    with run_queue_sched_rel [of lq m sys] show ?thesis by simp
  next
    case False
    from assms(2) have "RunningJobs (heap m) lq \<noteq> []"
      by (auto simp: RunningJobs_def filter_empty_conv)
    with False Some assms(1) have "schedule_queue sys name m = Some m"
      by (simp add: schedule_queue_def)
    then show ?thesis by (simp add: sched_rel_refl)
  qed
qed

lemma dispatch_schedule_locked:
  assumes "map_of (queues m) LockQueue = Some lq"
    and "\<exists>a\<in>set (Jobs lq). Status (heap m a) = RunningStatus"
  shows "\<exists>m'. dispatch_schedule sys names m = Some m' \<and> sched_rel (set (Jobs lq)) m m'"
  using assms
proof (induction names arbitrary: m lq)
  case Nil
  then show ?case by (simp add: sched_rel_refl)
next
  case (Cons name names)
  from schedule_queue_locked [OF Cons.prems, of sys name] obtain m1 where
    s: "schedule_queue sys name m = Some m1" and r: "sched_rel (set (Jobs lq)) m m1"
    by auto
  from r have q: "quiet m m1" by (simp add: sched_rel_def)
  from quiet_Jobs_set [OF q Cons.prems(1)] obtain lq1 where
    l1: "map_of (queues m1) LockQueue = Some lq1" and ms: "mset (Jobs lq1) = mset (Jobs lq)"
    by auto
  from arg_cong [OF ms, of set_mset] have se: "set (Jobs lq1) = set (Jobs lq)" by simp
  from Cons.prems(2) r have "\<exists>a\<in>set (Jobs lq1). Status (heap m1 a) = RunningStatus"
    unfolding se sched_rel_def by blast
  from Cons.IH [OF l1 this] obtain m' where
    d: "dispatch_schedule sys names m1 = Some m'" and r': "sched_rel (set (Jobs lq)) m1 m'"
    unfolding se by auto
  from s d sched_rel_trans [OF r r'] show ?case by simp
qed

lemma dispatch_notify_sched_rel: "sched_rel S m (dispatch_notify m)"
  by (simp add: sched_rel_def dispatch_notify_quiet) (simp add: dispatch_notify_def)

lemma dispatch_reap_Running:
  "(Status (heap (dispatch_reap m) a) = RunningStatus) = (Status (heap m a) = RunningStatus)"
proof -
  have one: "(Status (heap (reap_one p m) a) = RunningStatus) = (Status (heap m a) = RunningStatus)"
    for p m
  proof -
    obtain e1 m1 where r: "removeJob (Id_job (heap m p)) (queueName (heap m p)) m = (e1, m1)"
      by (cases "removeJob (Id_job (heap m p)) (queueName (heap m p)) m") auto
    from removeJob_effect [OF r] have h1: "heap m1 = heap m" by simp
    show ?thesis
    proof (cases "next_job (heap m p)")
      case None
      with r h1 show ?thesis by (simp add: reap_one_def)
    next
      case (Some s)
      obtain e2 m2 where a: "addJob (Some s) m1 = (e2, m2)"
        by (cases "addJob (Some s) m1") auto
      from addJob_effect [OF a] have h2: "heap m2 = heap m1" by simp
      from r a Some h1 have "reap_one p m = snd (MarkStart (Id_job (heap m2 s)) m2)"
        by (simp add: reap_one_def)
      with MarkStart_Running [of "Id_job (heap m2 s)" m2 a] h1 h2 show ?thesis by simp
    qed
  qed
  have "(Status (heap (fold reap_one ps m) a) = RunningStatus) = (Status (heap m a) = RunningStatus)"
    for ps
    by (induction ps arbitrary: m) (simp_all add: one)
  then show ?thesis by (simp add: dispatch_reap_def)
qed

lemma filter_length_mono:
  assumes "mset xs' = mset xs" and "\<forall>a\<in>set xs. P' a \<longrightarrow> P a"
  shows "length (filter P' xs') \<le> length (filter P xs)"
proof -
  have "filter_mset P' (mset xs) \<subseteq># filter_mset P (mset xs)"
    by (rule filter_mset_mono_strong) (use assms(2) in auto)
  then have "size (filter_mset P' (mset xs)) \<le> size (filter_mset P (mset xs))"
    by (rule size_mset_mono)
  moreover have "size (filter_mset P' (mset xs')) = length (filter P' xs')"
    by (metis mset_filter size_mset)
  moreover have "size (filter_mset P (mset xs)) = length (filter P xs)"
    by (metis mset_filter size_mset)
  ultimately show ?thesis using assms(1) by simp
qed

subsection \<open>Finding a job whose id is unique\<close>



lemma find_in_Cons:
  "find_in h ((name, queue) # qs) i =
     (case List.find (\<lambda>a. Id_job (h a) = i) (Jobs queue) of
        Some job \<Rightarrow> Some job
      | None \<Rightarrow> find_in h qs i)"
  by (simp add: Find_def)










subsection \<open>MarkStart on a job whose id is unique\<close>


subsection \<open>Which operations move a job into End\<close>

















subsection \<open>Where a job enters a queue, and where a job in End keeps its successor\<close>



subsection \<open>Well-formed queues\<close>







subsection \<open>One round of the reap loop on well-formed queues\<close>











subsection \<open>The reap phase on well-formed queues\<close>





subsection \<open>Successor fields over a run\<close>








subsection \<open>The scan for duplicates\<close>












subsection \<open>CreateJob on a request that one queued job matches\<close>





section \<open>The claims\<close>

text \<open>
  C9. The claim: after every Add and Remove the job list has every UpdateSource job before
  every other job, since the comparator is a total ordering. On the code it fails.
  \<^verbatim>\<open>Less(i, j)\<close> answers true whenever the job at \<open>i\<close> is an UpdateSource job, and
  compares the creation times when only the job at \<open>j\<close> is one, so for a DistUpgrade
  created before an UpdateSource job each is less than the other. Adding the three jobs
  of \<open>ex_heap_lock\<close> to an empty lock queue in the order of their creation leaves the
  UpdateSource job behind the first DistUpgrade.
\<close>

theorem Add_leaves_UpdateSource_behind:
  "Jobs (snd (Add ex_heap_lock
           (snd (Add ex_heap_lock
              (snd (Add ex_heap_lock (NewJobQueue LockQueue 1) 0)) 1)) 2)) = [0, 1, 2]
   \<and> Type (ex_heap_lock 0) = DistUpgradeJobType
   \<and> Type (ex_heap_lock 1) = UpdateSourceJobType
   \<and> Less ex_heap_lock 0 1 \<and> Less ex_heap_lock 1 0"
  by code_simp

text \<open>
  C10. \<^verbatim>\<open>CreateJob\<close> drops the result of the admission. In \<open>ex_m_download\<close> the
  download queue holds a Download job of the package a. A request to install a finds no
  duplicate (the types differ), builds the Download job at address 1 with its Install
  successor, and \<^verbatim>\<open>addJob\<close> refuses it with the conflict error. \<^verbatim>\<open>CreateJob\<close> still
  returns the job, which is in no queue, together with the NotFound error of
  \<^verbatim>\<open>MarkStart\<close>; and no call of \<^verbatim>\<open>CreateJob\<close> whatsoever returns a conflict error.
\<close>

theorem CreateJob_drops_conflict:
  "find_job ex_m_download (guest ex_m_download InstallJobType [''a'']) = None
   \<and> (case CreateJob_switch (ex_tmpl ''2'' 2) (ex_tmpl ''3'' 3) ''n'' InstallJobType [''a'']
              ex_m_download of
         None \<Rightarrow> False
       | Some (job, m1) \<Rightarrow>
           job = 1 \<and> fst (addJob (Some job) m1) = Some (ExistsError DownloadJobType [''a'']))
   \<and> (case CreateJob (ex_tmpl ''2'' 2) (ex_tmpl ''3'' 3) ''n'' InstallJobType [''a'']
              ex_m_download of
         (job, err, m') \<Rightarrow>
           job = Some 1 \<and> err = Some NotFoundError \<and> queues m' = queues ex_m_download
           \<and> map (\<lambda>(name, queue). Jobs queue) (queues m') = [[0], [], []])
   \<and> fst (snd (CreateJob tmpl tmpl' jobName jobType packages m)) \<noteq> Some (ExistsError t ps)"
proof -
  have general: "fst (snd (CreateJob tmpl tmpl' jobName jobType packages m)) \<noteq> Some (ExistsError t ps)"
    by (simp add: CreateJob_def MarkStart_error_fst split: option.splits prod.splits)
  have a: "find_job ex_m_download (guest ex_m_download InstallJobType [''a'']) = None"
    by code_simp
  have b: "(case CreateJob_switch (ex_tmpl ''2'' 2) (ex_tmpl ''3'' 3) ''n'' InstallJobType [''a'']
              ex_m_download of
         None \<Rightarrow> False
       | Some (job, m1) \<Rightarrow>
           job = 1 \<and> fst (addJob (Some job) m1) = Some (ExistsError DownloadJobType [''a'']))"
    by code_simp
  have c: "(case CreateJob (ex_tmpl ''2'' 2) (ex_tmpl ''3'' 3) ''n'' InstallJobType [''a'']
              ex_m_download of
         (job, err, m') \<Rightarrow>
           job = Some 1 \<and> err = Some NotFoundError \<and> queues m' = queues ex_m_download
           \<and> map (\<lambda>(name, queue). Jobs queue) (queues m') = [[0], [], []])"
    by code_simp
  from a b c general show ?thesis by blast
qed

text \<open>
  C2. The claim: \<^verbatim>\<open>PendingJobs\<close> returns the \<open>min(Cap - r, |C|)\<close> least candidates
  under the global ordering. The code cuts the candidate list first, in the order of the
  queue, and sorts what is left: after the younger of two Ready jobs was raised to the
  head of a queue of capacity 1, the younger job is returned, where the spec's selection
  returns the older one.
\<close>

theorem PendingJobs_returns_raised_job:
  "Jobs ex_queue_two = [0, 1] \<and> Jobs ex_queue_raised = [1, 0]
   \<and> candidates ex_heap_two ex_queue_raised = [1, 0]
   \<and> CreateTime (ex_heap_two 0) < CreateTime (ex_heap_two 1)
   \<and> snd (PendingJobs ex_heap_two ex_queue_raised) = [1]
   \<and> PendingJobs_spec ex_heap_two ex_queue_raised = [0]"
  by code_simp

text \<open>
  C2 as the code has it: on a queue whose jobs are distinct, \<^verbatim>\<open>PendingJobs\<close> returns
  \<open>min(max(Cap - r, 0), |C|)\<close> jobs; they are the first that many candidates in the
  order of the queue, rearranged by the sort; and when none of them is an UpdateSource
  job they come in ascending order of creation time.
\<close>

theorem PendingJobs_selection:
  assumes "distinct (Jobs l)"
  shows "let n = min (nat (Cap l - int (length (RunningJobs h l)))) (length (candidates h l));
             jobs = snd (PendingJobs h l)
         in length jobs = n
            \<and> mset jobs = mset (take n (candidates h l))
            \<and> ((\<forall>a\<in>set jobs. Type (h a) \<noteq> UpdateSourceJobType) \<longrightarrow>
                 sorted_wrt (\<lambda>a b. CreateTime (h a) \<le> CreateTime (h b)) jobs)"
proof -
  define n where "n = min (nat (Cap l - int (length (RunningJobs h l)))) (length (candidates h l))"
  define jobs where "jobs = snd (PendingJobs h l)"
  have jobs: "jobs = sort_Sort h (take n (candidates h l))"
    by (simp add: jobs_def n_def PendingJobs_distinct [OF assms] sort_Sort_spend_retry)
  have 1: "length jobs = n"
    by (simp add: jobs length_sort_Sort n_def)
  have 2: "mset jobs = mset (take n (candidates h l))"
    by (simp add: jobs mset_sort_Sort)
  have 3: "sorted_wrt (\<lambda>a b. CreateTime (h a) \<le> CreateTime (h b)) jobs"
    if "\<forall>a\<in>set jobs. Type (h a) \<noteq> UpdateSourceJobType"
  proof -
    from that have "\<forall>a\<in>set (take n (candidates h l)). Type (h a) \<noteq> UpdateSourceJobType"
      by (simp add: jobs set_sort_Sort)
    then show ?thesis
      unfolding jobs by (rule sort_Sort_sorted)
  qed
  from 1 2 3 show ?thesis
    by (simp add: Let_def n_def [symmetric] jobs_def [symmetric])
qed

theorem PendingJobs_selection_witness:
  "distinct (Jobs ex_queue_raised)
   \<and> length (snd (PendingJobs ex_heap_two ex_queue_raised)) = 1
   \<and> mset (snd (PendingJobs ex_heap_two ex_queue_raised)) = {#1#}
   \<and> sorted_wrt (\<lambda>a b. CreateTime (ex_heap_two a) \<le> CreateTime (ex_heap_two b))
        (snd (PendingJobs ex_heap_two ex_queue_raised))"
proof -
  have d: "distinct (Jobs ex_queue_raised)" by code_simp
  have c: "candidates ex_heap_two ex_queue_raised = [1, 0]" by code_simp
  have r: "RunningJobs ex_heap_two ex_queue_raised = []" by code_simp
  have cap: "Cap ex_queue_raised = 1" by code_simp
  have t: "Type (ex_heap_two 1) \<noteq> UpdateSourceJobType" by code_simp
  from PendingJobs_selection [OF d, of ex_heap_two] have
    "length (snd (PendingJobs ex_heap_two ex_queue_raised)) = 1
     \<and> mset (snd (PendingJobs ex_heap_two ex_queue_raised)) = {#1#}
     \<and> ((\<forall>a\<in>set (snd (PendingJobs ex_heap_two ex_queue_raised)).
            Type (ex_heap_two a) \<noteq> UpdateSourceJobType) \<longrightarrow>
          sorted_wrt (\<lambda>a b. CreateTime (ex_heap_two a) \<le> CreateTime (ex_heap_two b))
            (snd (PendingJobs ex_heap_two ex_queue_raised)))"
    by (simp add: Let_def c r cap)
  moreover from this have "set (snd (PendingJobs ex_heap_two ex_queue_raised)) = {1}"
    by (metis set_mset_mset set_mset_single)
  ultimately show ?thesis using d t by simp
qed

text \<open>
  C3. The retry budget. On a queue whose jobs are distinct, a call of \<^verbatim>\<open>PendingJobs\<close>
  takes exactly one retry from every Failed job of the queue that has one left and changes
  nothing else in the store; every job it returns was Ready, or Failed with a retry left;
  a Failed job with budget \<open>retry\<close> is, after \<open>n \<ge> retry\<close> calls, still Failed with
  no retry left and is not returned by the next call; and \<^verbatim>\<open>MarkStart\<close> on a Failed job
  makes it Ready again.
\<close>

theorem PendingJobs_retry_budget:
  assumes "distinct (Jobs l)"
  shows "(\<forall>a. fst (PendingJobs h l) a =
               (if a \<in> set (Jobs l) \<and> Status (h a) = FailedStatus \<and> 0 < retry (h a)
                then (h a)\<lparr>retry := retry (h a) - 1\<rparr> else h a))
         \<and> (\<forall>a\<in>set (snd (PendingJobs h l)).
               Status (h a) = ReadyStatus \<or> (Status (h a) = FailedStatus \<and> 0 < retry (h a)))
         \<and> (\<forall>a\<in>set (Jobs l).
               Status (h a) = FailedStatus \<and> 0 \<le> retry (h a) \<and> retry (h a) \<le> int n \<longrightarrow>
                 Status (PendingJobs_times n h l a) = FailedStatus
                 \<and> retry (PendingJobs_times n h l a) = 0
                 \<and> a \<notin> set (snd (PendingJobs (PendingJobs_times n h l) l)))
         \<and> (\<forall>a. find_job m i = Some a \<and> Status (heap m a) = FailedStatus \<longrightarrow>
                 Status (heap (snd (MarkStart i m)) a) = ReadyStatus)"
proof -
  have 1: "fst (PendingJobs h l) a =
               (if a \<in> set (Jobs l) \<and> Status (h a) = FailedStatus \<and> 0 < retry (h a)
                then (h a)\<lparr>retry := retry (h a) - 1\<rparr> else h a)" for a
    by (simp add: PendingJobs_distinct [OF assms] spend_retry_def)
  have 2: "Status (h a) = ReadyStatus \<or> (Status (h a) = FailedStatus \<and> 0 < retry (h a))"
    if "a \<in> set (snd (PendingJobs h l))" for a
    using PendingJobs_subset_candidates [OF assms, of h] that by (auto simp: candidates_def)
  have 3: "Status (PendingJobs_times n h l a) = FailedStatus
                 \<and> retry (PendingJobs_times n h l a) = 0
                 \<and> a \<notin> set (snd (PendingJobs (PendingJobs_times n h l) l))"
    if "a \<in> set (Jobs l)" and "Status (h a) = FailedStatus" and "0 \<le> retry (h a)"
      and "retry (h a) \<le> int n" for a
  proof -
    from PendingJobs_times_retry [of l a h n, OF assms that(1,2,3)] that(4)
    have s: "Status (PendingJobs_times n h l a) = FailedStatus"
      and r: "retry (PendingJobs_times n h l a) = 0" by auto
    then have "a \<notin> set (candidates (PendingJobs_times n h l) l)"
      by (simp add: candidates_def)
    with PendingJobs_subset_candidates [OF assms, of "PendingJobs_times n h l"] s r
    show ?thesis by auto
  qed
  from 1 2 3 MarkStart_Failed show ?thesis by blast
qed

theorem PendingJobs_retry_budget_witness:
  "distinct (Jobs ex_queue_two)
   \<and> Status (ex_heap_failed 0) = FailedStatus \<and> retry (ex_heap_failed 0) = 2
   \<and> snd (PendingJobs ex_heap_failed ex_queue_two) = []
   \<and> retry (fst (PendingJobs ex_heap_failed ex_queue_two) 0) = 1
   \<and> fst (PendingJobs ex_heap_failed ex_queue_two) 1 = ex_heap_failed 1
   \<and> retry (PendingJobs_times 2 ex_heap_failed ex_queue_two 0) = 0
   \<and> 0 \<notin> set (snd (PendingJobs (PendingJobs_times 2 ex_heap_failed ex_queue_two) ex_queue_two))
   \<and> find_job (ex_m_download\<lparr>heap := ex_heap_failed\<rparr>) ''1'' = Some 0
   \<and> Status (heap (snd (MarkStart ''1'' (ex_m_download\<lparr>heap := ex_heap_failed\<rparr>))) 0) = ReadyStatus"
proof -
  have d: "distinct (Jobs ex_queue_two)" by code_simp
  have j: "Jobs ex_queue_two = [0, 1]" by code_simp
  have s: "Status (ex_heap_failed 0) = FailedStatus" "retry (ex_heap_failed 0) = 2"
    "Status (ex_heap_failed 1) = RunningStatus" by code_simp+
  have f: "find_job (ex_m_download\<lparr>heap := ex_heap_failed\<rparr>) ''1'' = Some 0" by code_simp
  have e: "snd (PendingJobs ex_heap_failed ex_queue_two) = []" by code_simp
  from PendingJobs_retry_budget [OF d, of ex_heap_failed 2 "ex_m_download\<lparr>heap := ex_heap_failed\<rparr>" "''1''"]
  show ?thesis using d s f e by (simp add: j)
qed

text \<open>
  C7. The claim: a Ready job is paused without a call of the backend's Abort, and a
  Running job that is not Cancelable cannot be paused. \<^verbatim>\<open>PauseJob\<close> has neither
  distinction: it calls Abort for every job whose transition to Paused is valid. With a
  backend whose Abort fails, Abort is asked for the Ready job of \<open>ex_m_download\<close>,
  the job is not paused and the backend's error comes back; with a backend whose Abort
  succeeds, the Running job of \<open>ex_m_running\<close>, which is not Cancelable, is paused.
\<close>

theorem PauseJob_asks_Abort_for_every_job:
  "find_job ex_m_download ''1'' = Some 0
   \<and> Status (heap ex_m_download 0) = ReadyStatus
   \<and> aborts ex_m_download = []
   \<and> aborts (snd (PauseJob sys_fail ''1'' ex_m_download)) = [''1'']
   \<and> fst (PauseJob sys_fail ''1'' ex_m_download) = Some (BackendError ''abort'')
   \<and> Status (heap (snd (PauseJob sys_fail ''1'' ex_m_download)) 0) = ReadyStatus
   \<and> find_job ex_m_running ''1'' = Some 0
   \<and> Status (heap ex_m_running 0) = RunningStatus
   \<and> \<not> Cancelable (heap ex_m_running 0)
   \<and> fst (PauseJob sys_ok ''1'' ex_m_running) = None
   \<and> Status (heap (snd (PauseJob sys_ok ''1'' ex_m_running)) 0) = PausedStatus"
  by code_simp

text \<open>
  C7 as the code has it: for a job found by its id, \<^verbatim>\<open>PauseJob\<close> returns NotSupport and
  leaves the state alone when the job is neither Ready nor Running (the transition to
  Paused is invalid); otherwise it calls Abort with the job's id, whatever the status and
  whatever Cancelable: when Abort returns an error, that error is returned and nothing
  changes but the record of the call; when Abort succeeds, the status of the job becomes
  Paused and nothing else changes but the records of the call and of the status change
  and the manager's change flag.
\<close>

theorem PauseJob_found:
  assumes "find_job m jobId = Some job"
  shows "PauseJob sys jobId m =
     (if Status (heap m job) \<noteq> ReadyStatus \<and> Status (heap m job) \<noteq> RunningStatus
      then (Some NotSupportError, m)
      else (case Abort sys (Id_job (heap m job)) of
              Some err \<Rightarrow> (Some err, m\<lparr>aborts := aborts m @ [Id_job (heap m job)]\<rparr>)
            | None \<Rightarrow>
                (None, m\<lparr>heap := (heap m)(job := (heap m job)\<lparr>Status := PausedStatus\<rparr>),
                         changed := True,
                         aborts := aborts m @ [Id_job (heap m job)],
                         transitions := transitions m
                                          @ [(job, Status (heap m job), PausedStatus)]\<rparr>)))"
proof (cases "ValidTransitionJobState (Status (heap m job)) PausedStatus")
  case False
  with assms show ?thesis
    by (simp add: PauseJob_def ValidTransitionJobState_Paused)
next
  case True
  show ?thesis
  proof (cases "Abort sys (Id_job (heap m job))")
    case (Some err)
    with True assms show ?thesis
      by (auto simp: PauseJob_def ValidTransitionJobState_Paused)
  next
    case None
    with True assms show ?thesis
      by (auto simp: PauseJob_def ValidTransitionJobState_Paused TransitionJobState_def
          Let_def on_entry_def)
  qed
qed

theorem PauseJob_found_witness:
  "find_job ex_m_running ''1'' = Some 0
   \<and> PauseJob sys_fail ''1'' ex_m_running =
       (Some (BackendError ''abort''), ex_m_running\<lparr>aborts := [''1'']\<rparr>)
   \<and> PauseJob sys_ok ''1'' ex_m_running =
       (None, ex_m_running\<lparr>heap := (heap ex_m_running)
                                (0 := (heap ex_m_running 0)\<lparr>Status := PausedStatus\<rparr>),
                            changed := True, aborts := [''1''],
                            transitions := [(0, RunningStatus, PausedStatus)]\<rparr>)"
proof -
  have f: "find_job ex_m_running ''1'' = Some 0" by code_simp
  have s: "Status (heap ex_m_running 0) = RunningStatus" "Id_job (heap ex_m_running 0) = ''1''"
    "aborts ex_m_running = []" "transitions ex_m_running = []" by code_simp+
  from PauseJob_found [OF f, of sys_fail] PauseJob_found [OF f, of sys_ok] f s
  show ?thesis by (simp add: sys_ok_def sys_fail_def)
qed

text \<open>
  C8. For a job found by its id, \<^verbatim>\<open>CleanJob\<close> first pauses a job that is Running and
  Cancelable: it calls \<^verbatim>\<open>PauseJob\<close>, which asks the backend's Abort once, with the id
  of the job, and makes the job Paused when Abort succeeds; for any other job Abort is
  not asked. A job in End is left alone, with NotSupport. For every other job the
  \<open>next\<close> field is cleared on the state the pause has left, the End transition runs
  on the cleared job and succeeds, and the job ends in End with no successor. The status
  changes of the call are, in this order, Running to Paused and Paused to End when the
  job was paused, and the one change to End otherwise (also when Abort has failed). A
  successor that only this job pointed at and that is in no queue stays out of every
  queue through every later run of requests, dispatch ticks included.
\<close>

theorem CleanJob_abandons_successor:
  assumes "find_job m jobId = Some job"
  shows "let j = heap m job;
             pause = (Status j = RunningStatus \<and> Cancelable j);
             asked = (if pause then aborts m @ [Id_job j] else aborts m);
             paused = (pause \<and> Abort sys (Id_job j) = None);
             trail = (if paused
                      then [(job, RunningStatus, PausedStatus), (job, PausedStatus, EndStatus)]
                      else [(job, Status j, EndStatus)]);
             m1 = (if pause
                   then (if Abort sys (Id_job j) = None
                         then m\<lparr>heap := (heap m)(job := j\<lparr>Status := PausedStatus\<rparr>),
                                changed := True, aborts := asked,
                                transitions := transitions m
                                                 @ [(job, RunningStatus, PausedStatus)]\<rparr>
                         else m\<lparr>aborts := asked\<rparr>)
                   else m);
             cleared = m1\<lparr>heap := (heap m1)(job := (heap m1 job)\<lparr>next_job := None\<rparr>)\<rparr>;
             m' = snd (CleanJob sys jobId m)
         in (pause \<longrightarrow> PauseJob sys jobId m = (Abort sys (Id_job j), m1))
            \<and> aborts m' = asked
            \<and> (Status j = EndStatus \<longrightarrow> CleanJob sys jobId m = (Some NotSupportError, m))
            \<and> (Status j \<noteq> EndStatus \<longrightarrow>
                  CleanJob sys jobId m = TransitionJobState job EndStatus cleared
                  \<and> (paused \<longrightarrow> Status (heap cleared job) = PausedStatus)
                  \<and> (\<not> paused \<longrightarrow> Status (heap cleared job) = Status j)
                  \<and> next_job (heap cleared job) = None
                  \<and> CleanJob sys jobId m =
                      (None, m\<lparr>heap := (heap m)(job := j\<lparr>next_job := None, Status := EndStatus\<rparr>),
                               changed := True, aborts := asked,
                               transitions := transitions m @ trail\<rparr>)
                  \<and> (\<forall>s rs m''.
                        next_job j = Some s \<and> s \<notin> set (all_jobs m) \<and> s < nextAddr m
                        \<and> (\<forall>a. a \<noteq> job \<longrightarrow> next_job (heap m a) \<noteq> Some s)
                        \<and> run rs m' = Some m''
                        \<longrightarrow> s \<notin> set (all_jobs m'')))"
proof -
  define j where "j = heap m job"
  define pause where "pause \<longleftrightarrow> Status j = RunningStatus \<and> Cancelable j"
  define asked where "asked = (if pause then aborts m @ [Id_job j] else aborts m)"
  define paused where "paused \<longleftrightarrow> pause \<and> Abort sys (Id_job j) = None"
  define trail where "trail = (if paused
                      then [(job, RunningStatus, PausedStatus), (job, PausedStatus, EndStatus)]
                      else [(job, Status j, EndStatus)])"
  define m1 where "m1 = (if pause
                   then (if Abort sys (Id_job j) = None
                         then m\<lparr>heap := (heap m)(job := j\<lparr>Status := PausedStatus\<rparr>),
                                changed := True, aborts := asked,
                                transitions := transitions m
                                                 @ [(job, RunningStatus, PausedStatus)]\<rparr>
                         else m\<lparr>aborts := asked\<rparr>)
                   else m)"
  define cleared where "cleared = m1\<lparr>heap := (heap m1)(job := (heap m1 job)\<lparr>next_job := None\<rparr>)\<rparr>"
  define m' where "m' = snd (CleanJob sys jobId m)"
  have p: "PauseJob sys jobId m = (Abort sys (Id_job j), m1)" if pause
    using that by (cases "Abort sys (Id_job j)")
      (simp_all add: PauseJob_Some [OF assms] m1_def asked_def pause_def j_def)
  have m1: "(if Status (heap m job) = RunningStatus \<and> Cancelable (heap m job)
             then snd (PauseJob sys jobId m) else m) = m1"
  proof (cases pause)
    case True
    with p show ?thesis by (simp add: pause_def j_def)
  next
    case False
    then have n: "\<not> (Status (heap m job) = RunningStatus \<and> Cancelable (heap m job))"
      by (simp add: pause_def j_def)
    from False have "m1 = m" by (simp add: m1_def)
    then show ?thesis by (simp only: if_not_P [OF n])
  qed
  have st1: "Status (heap m1 job) = EndStatus \<longleftrightarrow> Status j = EndStatus"
    by (auto simp: m1_def pause_def j_def)
  have c: "CleanJob sys jobId m =
             (if Status j = EndStatus then (Some NotSupportError, m1)
              else TransitionJobState job EndStatus cleared)"
    using CleanJob_Some [OF assms, of sys] unfolding m1 Let_def
    by (simp add: cleared_def st1)
  have e: "m1 = m" if "Status j = EndStatus"
    using that by (simp add: m1_def pause_def)
  have 2: "CleanJob sys jobId m = (Some NotSupportError, m)" if "Status j = EndStatus"
    using that c e by simp
  have ps: "Status (heap cleared job) = PausedStatus" if paused
    using that by (simp add: cleared_def m1_def paused_def)
  have nps: "Status (heap cleared job) = Status j" if "\<not> paused"
    using that by (auto simp: cleared_def m1_def paused_def j_def)
  have nx: "next_job (heap cleared job) = None"
    by (simp add: cleared_def)
  have 3: "CleanJob sys jobId m =
             (None, m\<lparr>heap := (heap m)(job := j\<lparr>next_job := None, Status := EndStatus\<rparr>),
                      changed := True, aborts := asked, transitions := transitions m @ trail\<rparr>)"
    if ne: "Status j \<noteq> EndStatus"
  proof -
    have v: "ValidTransitionJobState (Status (heap cleared job)) EndStatus"
      using ne by (auto simp: ValidTransitionJobState_End cleared_def m1_def j_def)
    have "TransitionJobState job EndStatus cleared =
            (None, m\<lparr>heap := (heap m)(job := j\<lparr>next_job := None, Status := EndStatus\<rparr>),
                     changed := True, aborts := asked, transitions := transitions m @ trail\<rparr>)"
      using v nx
      by (auto simp: TransitionJobState_def Let_def on_entry_def cleared_def m1_def asked_def
          trail_def paused_def j_def [symmetric])
    with c ne show ?thesis by simp
  qed
  have ab: "aborts m' = asked"
  proof (cases "Status j = EndStatus")
    case True
    with 2 show ?thesis by (simp add: m'_def asked_def pause_def)
  next
    case False
    with 3 show ?thesis by (simp add: m'_def)
  qed
  have 4: "s \<notin> set (all_jobs m'')"
    if ne: "Status j \<noteq> EndStatus"
      and s: "next_job j = Some s" "s \<notin> set (all_jobs m)" "s < nextAddr m"
        "\<forall>a. a \<noteq> job \<longrightarrow> next_job (heap m a) \<noteq> Some s"
      and r: "run rs m' = Some m''" for s rs m''
  proof -
    have q: "quiet m m'" unfolding m'_def by (rule CleanJob_quiet)
    then have "mset (all_jobs m') = mset (all_jobs m)" by (simp add: quiet_def)
    from arg_cong [OF this, of set_mset] s(2) have a1: "s \<notin> set (all_jobs m')" by simp
    have a2: "next_job (heap m' a) \<noteq> Some s" for a
    proof (cases "a = job")
      case True
      with 3 [OF ne] show ?thesis by (simp add: m'_def)
    next
      case False
      from q have "next_job (heap m' a) = None \<or> next_job (heap m' a) = next_job (heap m a)"
        by (simp add: quiet_def soft_def)
      with False s(4) show ?thesis by auto
    qed
    from q s(3) have "s < nextAddr m'" by (simp add: quiet_def)
    with a1 a2 have "abandoned s m'" by (simp add: abandoned_def)
    from abandoned_run [OF this r] show ?thesis by (simp add: abandoned_def)
  qed
  from c have 5: "CleanJob sys jobId m = TransitionJobState job EndStatus cleared"
    if "Status j \<noteq> EndStatus" using that by simp
  from p ab 2 3 4 5 ps nps nx show ?thesis
    unfolding Let_def j_def [symmetric] pause_def [symmetric] asked_def [symmetric]
      paused_def [symmetric] trail_def [symmetric]
      m1_def [symmetric] cleared_def [symmetric] m'_def [symmetric]
    by blast
qed


theorem CleanJob_abandons_successor_witness:
  "find_job ex_m_chain ''1'' = Some 0
   \<and> Status (heap ex_m_chain 0) = RunningStatus \<and> Cancelable (heap ex_m_chain 0)
   \<and> next_job (heap ex_m_chain 0) = Some 1
   \<and> aborts ex_m_chain = [] \<and> transitions ex_m_chain = []
   \<and> PauseJob sys_ok ''1'' ex_m_chain =
        (None, ex_m_chain\<lparr>heap := (heap ex_m_chain)
                                  (0 := (heap ex_m_chain 0)\<lparr>Status := PausedStatus\<rparr>),
                         changed := True, aborts := [''1''],
                         transitions := [(0, RunningStatus, PausedStatus)]\<rparr>)
   \<and> CleanJob sys_ok ''1'' ex_m_chain =
        (None, ex_m_chain\<lparr>heap := (heap ex_m_chain)
                                  (0 := (heap ex_m_chain 0)
                                          \<lparr>next_job := None, Status := EndStatus\<rparr>),
                         changed := True, aborts := [''1''],
                         transitions := [(0, RunningStatus, PausedStatus),
                                         (0, PausedStatus, EndStatus)]\<rparr>)
   \<and> CleanJob sys_fail ''1'' ex_m_chain =
        (None, ex_m_chain\<lparr>heap := (heap ex_m_chain)
                                  (0 := (heap ex_m_chain 0)
                                          \<lparr>next_job := None, Status := EndStatus\<rparr>),
                         changed := True, aborts := [''1''],
                         transitions := [(0, RunningStatus, EndStatus)]\<rparr>)
   \<and> (case run [ReqDispatch sys_ok, ReqDispatch sys_ok] (snd (CleanJob sys_ok ''1'' ex_m_chain)) of
         None \<Rightarrow> False
       | Some m'' \<Rightarrow> 1 \<notin> set (all_jobs m''))
   \<and> find_job ex_m_running ''1'' = Some 0
   \<and> Status (heap ex_m_running 0) = RunningStatus \<and> \<not> Cancelable (heap ex_m_running 0)
   \<and> aborts (snd (CleanJob sys_ok ''1'' ex_m_running)) = []
   \<and> transitions (snd (CleanJob sys_ok ''1'' ex_m_running)) = [(0, RunningStatus, EndStatus)]"
proof -
  let ?m' = "snd (CleanJob sys_ok ''1'' ex_m_chain)"
  let ?rs = "[ReqDispatch sys_ok, ReqDispatch sys_ok]"
  have f: "find_job ex_m_chain ''1'' = Some 0" by code_simp
  have h: "Status (heap ex_m_chain 0) = RunningStatus" "Cancelable (heap ex_m_chain 0)"
    "Abort sys_ok (Id_job (heap ex_m_chain 0)) = None"
    "next_job (heap ex_m_chain 0) = Some 1" "aborts ex_m_chain = []"
    "transitions ex_m_chain = []" "Id_job (heap ex_m_chain 0) = ''1''"
    "Abort sys_fail (Id_job (heap ex_m_chain 0)) \<noteq> None"
    by code_simp+
  have h': "1 \<notin> set (all_jobs ex_m_chain)" "1 < nextAddr ex_m_chain" by code_simp+
  have o: "\<forall>a. a \<noteq> 0 \<longrightarrow> next_job (heap ex_m_chain a) \<noteq> Some 1"
    by (simp add: ex_m_chain_def ex_m_download_def mkJob_def)
  have n: "\<not> Option.is_none (run ?rs ?m')" by code_simp
  then obtain m'' where r: "run ?rs ?m' = Some m''"
    by (auto simp: Option.is_none_def)
  have f2: "find_job ex_m_running ''1'' = Some 0" by code_simp
  have h2: "Status (heap ex_m_running 0) = RunningStatus" "\<not> Cancelable (heap ex_m_running 0)"
    "aborts ex_m_running = []" "transitions ex_m_running = []" by code_simp+
  from h have pa: "Status (heap ex_m_chain 0) = RunningStatus \<and> Cancelable (heap ex_m_chain 0)"
    by simp
  from h have ne: "Status (heap ex_m_chain 0) \<noteq> EndStatus" by simp
  from h2 have ne2: "Status (heap ex_m_running 0) \<noteq> EndStatus" by simp
  note t = CleanJob_abandons_successor [OF f, of sys_ok, unfolded Let_def]
  note tf = CleanJob_abandons_successor [OF f, of sys_fail, unfolded Let_def]
  note t2 = CleanJob_abandons_successor [OF f2, of sys_ok, unfolded Let_def]
  from t [THEN conjunct1, THEN mp, OF pa] h(1,2,3,5,6,7)
  have p: "PauseJob sys_ok ''1'' ex_m_chain =
        (None, ex_m_chain\<lparr>heap := (heap ex_m_chain)
                                  (0 := (heap ex_m_chain 0)\<lparr>Status := PausedStatus\<rparr>),
                         changed := True, aborts := [''1''],
                         transitions := [(0, RunningStatus, PausedStatus)]\<rparr>)"
    by simp
  note c = t [THEN conjunct2, THEN conjunct2, THEN conjunct2, THEN mp, OF ne]
  from c [THEN conjunct2, THEN conjunct2, THEN conjunct2, THEN conjunct2, THEN conjunct1]
    h(1,2,3,5,6,7)
  have e: "CleanJob sys_ok ''1'' ex_m_chain =
        (None, ex_m_chain\<lparr>heap := (heap ex_m_chain)
                                  (0 := (heap ex_m_chain 0)
                                          \<lparr>next_job := None, Status := EndStatus\<rparr>),
                         changed := True, aborts := [''1''],
                         transitions := [(0, RunningStatus, PausedStatus),
                                         (0, PausedStatus, EndStatus)]\<rparr>)"
    by simp
  note cf = tf [THEN conjunct2, THEN conjunct2, THEN conjunct2, THEN mp, OF ne]
  from cf [THEN conjunct2, THEN conjunct2, THEN conjunct2, THEN conjunct2, THEN conjunct1]
    h(1,2,5,6,7,8)
  have ef: "CleanJob sys_fail ''1'' ex_m_chain =
        (None, ex_m_chain\<lparr>heap := (heap ex_m_chain)
                                  (0 := (heap ex_m_chain 0)
                                          \<lparr>next_job := None, Status := EndStatus\<rparr>),
                         changed := True, aborts := [''1''],
                         transitions := [(0, RunningStatus, EndStatus)]\<rparr>)"
    by simp
  from c [THEN conjunct2, THEN conjunct2, THEN conjunct2, THEN conjunct2, THEN conjunct2]
    h(4) h' o r
  have 1: "1 \<notin> set (all_jobs m'')" by blast
  note c2 = t2 [THEN conjunct2, THEN conjunct2, THEN conjunct2, THEN mp, OF ne2]
  from c2 [THEN conjunct2, THEN conjunct2, THEN conjunct2, THEN conjunct2, THEN conjunct1] h2
  have "aborts (snd (CleanJob sys_ok ''1'' ex_m_running)) = []"
    "transitions (snd (CleanJob sys_ok ''1'' ex_m_running)) = [(0, RunningStatus, EndStatus)]"
    by simp_all
  with 1 r f h(1,2,4,5,6) p e ef f2 h2(1,2) show ?thesis by simp
qed

text \<open>
  C6. The claim: whenever \<^verbatim>\<open>CreateJob\<close> with type Install finds no duplicate, the
  primary job it creates lives in the download queue. The scan for duplicates compares
  the type of the request, Install, so it does not see a Download job of the same
  packages; admission to the download queue compares the type of the primary job,
  Download, and refuses it. In \<open>ex_m_download\<close> the download queue holds a Download
  job of the package a: the scan finds nothing, \<^verbatim>\<open>CreateJob\<close> returns a new primary
  job of type Download, assigned to the download queue and followed by its Install
  successor, and that primary job is in no queue.
\<close>

theorem CreateJob_Install_primary_not_queued:
  "find_job ex_m_download (guest ex_m_download InstallJobType [''a'']) = None
   \<and> (let r = CreateJob (ex_tmpl ''2'' 2) (ex_tmpl ''3'' 3) ''n'' InstallJobType [''a''] ex_m_download;
           m' = snd (snd r)
       in fst r = Some 1
          \<and> Type (heap m' 1) = DownloadJobType \<and> queueName (heap m' 1) = DownloadQueue
          \<and> next_job (heap m' 1) = Some 2
          \<and> Type (heap m' 2) = InstallJobType \<and> queueName (heap m' 2) = SystemChangeQueue
          \<and> map (\<lambda>(name, queue). (name, Jobs queue)) (queues m')
               = [(''download'', [0]), (''system change'', []), (''lock'', [])]
          \<and> 1 \<notin> set (all_jobs m'))"
  by code_simp

text \<open>
  C6 as the code has it. When the scan for duplicates finds nothing, \<^verbatim>\<open>CreateJob\<close> with
  type Install returns a new job of type Download that is assigned to the download queue;
  its \<open>next\<close> field is a new job of type Install, assigned to the system change queue,
  with the same packages; and the id of the primary job is the id of the successor. The
  primary job is in the download queue after the call when the download queue holds no
  Download job with the same package fingerprint (the duplicate that admission looks
  for); it is in no queue when the download queue holds such a job or does not exist.
  The successor is in no queue.
\<close>

theorem CreateJob_Install_chain:
  assumes "find_job m (guest m InstallJobType packages) = None"
  shows "let r = CreateJob tmpl tmpl' jobName InstallJobType packages m;
             job = nextAddr m; nxt = Suc (nextAddr m); m' = snd (snd r)
         in fst r = Some job
            \<and> Type (heap m' job) = DownloadJobType
            \<and> queueName (heap m' job) = DownloadQueue
            \<and> Packages (heap m' job) = packages
            \<and> next_job (heap m' job) = Some nxt
            \<and> Type (heap m' nxt) = InstallJobType
            \<and> queueName (heap m' nxt) = SystemChangeQueue
            \<and> Packages (heap m' nxt) = packages
            \<and> next_job (heap m' nxt) = None
            \<and> Id_job (heap m' job) = Id_job (heap m' nxt)
            \<and> (\<forall>q. map_of (queues m) DownloadQueue = Some q
                    \<and> (\<forall>b\<in>set (Jobs q). b < nextAddr m
                          \<and> \<not> (Type (heap m b) = DownloadJobType
                                \<and> fingerprint (Packages (heap m b)) = fingerprint packages))
                  \<longrightarrow> (\<exists>q'. map_of (queues m') DownloadQueue = Some q' \<and> job \<in> set (Jobs q')))
            \<and> ((\<forall>b\<in>set (all_jobs m). b < nextAddr m)
                  \<and> (map_of (queues m) DownloadQueue = None
                       \<or> (\<exists>q. map_of (queues m) DownloadQueue = Some q
                              \<and> (\<exists>b\<in>set (Jobs q). Type (heap m b) = DownloadJobType
                                    \<and> fingerprint (Packages (heap m b)) = fingerprint packages)))
                  \<longrightarrow> job \<notin> set (all_jobs m'))
            \<and> ((\<forall>b\<in>set (all_jobs m). b < nextAddr m) \<longrightarrow> nxt \<notin> set (all_jobs m'))"
proof -
  define job where "job = nextAddr m"
  define nxt where "nxt = Suc (nextAddr m)"
  define h1 where "h1 = (heap m)
      (job := (NewJob tmpl jobName packages DownloadJobType DownloadQueue)
                \<lparr>Id_job := Id_job tmpl', next_job := Some nxt\<rparr>,
       nxt := NewJob tmpl' jobName packages InstallJobType SystemChangeQueue)"
  define m1 where "m1 = m\<lparr>heap := h1, nextAddr := Suc (Suc (nextAddr m))\<rparr>"
  define m2 where "m2 = snd (addJob (Some job) m1)"
  define m' where "m' = snd (snd (CreateJob tmpl tmpl' jobName InstallJobType packages m))"
  have ne: "job \<noteq> nxt" by (simp add: job_def nxt_def)
  have sw: "CreateJob_switch tmpl tmpl' jobName InstallJobType packages m = Some (job, m1)"
    by (auto simp: CreateJob_switch_def alloc_def m1_def h1_def job_def nxt_def NewJob_def
        fun_upd_twist)
  have r: "CreateJob tmpl tmpl' jobName InstallJobType packages m
             = (Some job, MarkStart (Id_job (heap m2 job)) m2)"
    using assms sw by (simp add: CreateJob_def m2_def case_prod_beta)
  then have m': "m' = snd (MarkStart (Id_job (heap m2 job)) m2)"
    by (simp add: m'_def)
  have h2: "heap m2 = h1"
    using addJob_effect [of "Some job" m1 "fst (addJob (Some job) m1)" m2]
    by (simp add: m2_def m1_def)
  have so: "status_only m2 m'" unfolding m' by (rule MarkStart_status_only)
  have qu: "quiet m2 m'" unfolding m' by (rule MarkStart_quiet)
  have hj: "h1 job = (NewJob tmpl jobName packages DownloadJobType DownloadQueue)
                \<lparr>Id_job := Id_job tmpl', next_job := Some nxt\<rparr>"
    and hn: "h1 nxt = NewJob tmpl' jobName packages InstallJobType SystemChangeQueue"
    using ne by (simp_all add: h1_def)
  have fields: "Type (heap m' job) = DownloadJobType"
    "queueName (heap m' job) = DownloadQueue"
    "Packages (heap m' job) = packages"
    "next_job (heap m' job) = Some nxt"
    "Type (heap m' nxt) = InstallJobType"
    "queueName (heap m' nxt) = SystemChangeQueue"
    "Packages (heap m' nxt) = packages"
    "next_job (heap m' nxt) = None"
    "Id_job (heap m' job) = Id_job (heap m' nxt)"
    using status_only_fields [OF so, of job] status_only_fields [OF so, of nxt]
    by (simp_all add: h2 hj hn NewJob_def)
  have member: "\<exists>q'. map_of (queues m') DownloadQueue = Some q' \<and> job \<in> set (Jobs q')"
    if q: "map_of (queues m) DownloadQueue = Some q"
      and b: "\<forall>b\<in>set (Jobs q). b < nextAddr m
                \<and> \<not> (Type (heap m b) = DownloadJobType
                      \<and> fingerprint (Packages (heap m b)) = fingerprint packages)" for q
  proof -
    have old: "h1 b = heap m b" if "b \<in> set (Jobs q)" for b
      using b that by (auto simp: h1_def job_def nxt_def)
    have q1: "map_of (queues m1) (queueName (heap m1 job)) = Some q"
      using q by (simp add: m1_def hj NewJob_def)
    have "\<forall>b\<in>set (Jobs q). \<not> (Type (heap m1 b) = Type (heap m1 job)
            \<and> fingerprint (Packages (heap m1 b)) = fingerprint (Packages (heap m1 job)))"
      using b old by (simp add: m1_def hj NewJob_def)
    from addJob_admits [OF q1 this]
    have "map_of (queues m2) DownloadQueue
            = Some (q\<lparr>Jobs := sort_Sort (heap m1) (Jobs q @ [job])\<rparr>)"
      by (simp add: m2_def map_of_set_queue m1_def hj NewJob_def)
    from quiet_Jobs_set [OF qu this] obtain q' where
      "map_of (queues m') DownloadQueue = Some q'"
      and ms: "mset (Jobs q') = mset (sort_Sort (heap m1) (Jobs q @ [job]))" by auto
    moreover from arg_cong [OF ms, of set_mset] have "job \<in> set (Jobs q')"
      by (simp add: set_sort_Sort)
    ultimately show ?thesis by blast
  qed
  have notin: "job \<notin> set (all_jobs m')"
    if lt: "\<forall>b\<in>set (all_jobs m). b < nextAddr m"
      and bad: "map_of (queues m) DownloadQueue = None
                \<or> (\<exists>q. map_of (queues m) DownloadQueue = Some q
                       \<and> (\<exists>b\<in>set (Jobs q). Type (heap m b) = DownloadJobType
                             \<and> fingerprint (Packages (heap m b)) = fingerprint packages))"
  proof -
    have err: "fst (addJob (Some job) m1) \<noteq> None"
    proof (cases "map_of (queues m) DownloadQueue")
      case None
      then show ?thesis by (simp add: addJob_def m1_def hj NewJob_def)
    next
      case (Some q)
      with bad obtain b where b: "b \<in> set (Jobs q)" "Type (heap m b) = DownloadJobType"
        "fingerprint (Packages (heap m b)) = fingerprint packages" by auto
      from b(1) map_of_in_all_jobs [OF Some] lt have "b < nextAddr m" by auto
      then have "h1 b = heap m b" by (simp add: h1_def job_def nxt_def)
      with b have "Type (h1 b) = Type (h1 job)
            \<and> fingerprint (Packages (h1 b)) = fingerprint (Packages (h1 job))"
        by (simp add: hj NewJob_def)
      with b(1) have "\<not> (\<forall>b\<in>set (Jobs q). \<not> (Type (h1 b) = Type (h1 job)
            \<and> fingerprint (Packages (h1 b)) = fingerprint (Packages (h1 job))))"
        by blast
      then have "List.find (\<lambda>b. Type (h1 b) = Type (h1 job)
            \<and> fingerprint (Packages (h1 b)) = fingerprint (Packages (h1 job))) (Jobs q) \<noteq> None"
        by (simp add: find_None_iff)
      then obtain c where "List.find (\<lambda>b. Type (h1 b) = Type (h1 job)
            \<and> fingerprint (Packages (h1 b)) = fingerprint (Packages (h1 job))) (Jobs q) = Some c"
        by auto
      moreover have "map_of (queues m1) (queueName (heap m1 job)) = Some q"
        using Some by (simp add: m1_def hj NewJob_def)
      ultimately show ?thesis by (simp add: addJob_def Add_def m1_def)
    qed
    have "mset (all_jobs m2) = mset (all_jobs m1)
            + (if fst (addJob (Some job) m1) = None then {#job#} else {#})"
      using addJob_effect [of "Some job" m1 "fst (addJob (Some job) m1)" m2]
      by (simp add: m2_def)
    with err have "mset (all_jobs m2) = mset (all_jobs m1)" by simp
    from arg_cong [OF this, of set_mset] have "set (all_jobs m2) = set (all_jobs m1)" by simp
    moreover have "all_jobs m1 = all_jobs m" by (simp add: all_jobs_def m1_def)
    moreover from qu have "mset (all_jobs m') = mset (all_jobs m2)" by (simp add: quiet_def)
    from arg_cong [OF this, of set_mset] have "set (all_jobs m') = set (all_jobs m2)" by simp
    ultimately have "set (all_jobs m') = set (all_jobs m)" by simp
    moreover have "job \<notin> set (all_jobs m)" using lt by (auto simp: job_def)
    ultimately show ?thesis by simp
  qed
  have out: "nxt \<notin> set (all_jobs m')" if lt: "\<forall>b\<in>set (all_jobs m). b < nextAddr m"
  proof -
    have "mset (all_jobs m2) = mset (all_jobs m1)
            + (if fst (addJob (Some job) m1) = None then {#job#} else {#})"
      using addJob_effect [of "Some job" m1 "fst (addJob (Some job) m1)" m2]
      by (simp add: m2_def)
    from arg_cong [OF this, of set_mset]
    have "set (all_jobs m2) \<subseteq> set (all_jobs m1) \<union> {job}" by (auto split: if_splits)
    moreover have "all_jobs m1 = all_jobs m" by (simp add: all_jobs_def m1_def)
    moreover from qu have "mset (all_jobs m') = mset (all_jobs m2)" by (simp add: quiet_def)
    from arg_cong [OF this, of set_mset] have "set (all_jobs m') = set (all_jobs m2)" by simp
    ultimately have "set (all_jobs m') \<subseteq> set (all_jobs m) \<union> {job}" by simp
    moreover have "nxt \<notin> set (all_jobs m)" using lt by (auto simp: nxt_def)
    ultimately show ?thesis using ne by auto
  qed
  from r have "fst (CreateJob tmpl tmpl' jobName InstallJobType packages m) = Some job"
    by simp
  moreover have nx: "Suc job = nxt" by (simp add: nxt_def job_def)
  ultimately show ?thesis
    using fields member notin out
    unfolding Let_def m'_def [symmetric] job_def [symmetric] nx
    by blast
qed

theorem CreateJob_Install_chain_witness:
  "find_job ex_m_empty (guest ex_m_empty InstallJobType [''a'']) = None
   \<and> (let r = CreateJob (ex_tmpl ''2'' 2) (ex_tmpl ''3'' 3) ''n'' InstallJobType [''a''] ex_m_empty;
           m' = snd (snd r)
       in fst r = Some 0
          \<and> Type (heap m' 0) = DownloadJobType \<and> queueName (heap m' 0) = DownloadQueue
          \<and> next_job (heap m' 0) = Some 1
          \<and> Type (heap m' 1) = InstallJobType \<and> queueName (heap m' 1) = SystemChangeQueue
          \<and> Packages (heap m' 1) = [''a'']
          \<and> Id_job (heap m' 0) = Id_job (heap m' 1)
          \<and> map (\<lambda>(name, queue). (name, Jobs queue)) (queues m')
               = [(''download'', [0]), (''system change'', []), (''lock'', [])]
          \<and> 1 \<notin> set (all_jobs m'))"
proof -
  let ?r = "CreateJob (ex_tmpl ''2'' 2) (ex_tmpl ''3'' 3) ''n'' InstallJobType [''a''] ex_m_empty"
  have f: "find_job ex_m_empty (guest ex_m_empty InstallJobType [''a'']) = None" by code_simp
  have n: "nextAddr ex_m_empty = 0" by code_simp
  have q: "map (\<lambda>(name, queue). (name, Jobs queue)) (queues (snd (snd ?r)))
               = [(''download'', [0]), (''system change'', []), (''lock'', [])]" by code_simp
  have a: "\<forall>b\<in>set (all_jobs ex_m_empty). b < nextAddr ex_m_empty" by code_simp
  note t = CreateJob_Install_chain [OF f, of "ex_tmpl ''2'' 2" "ex_tmpl ''3'' 3" "''n''",
      unfolded Let_def n]
  from t a n have "1 \<notin> set (all_jobs (snd (snd ?r)))" by simp
  with t f q show ?thesis by (simp add: Let_def)
qed

text \<open>
  C1. Lock-queue exclusion. Take a dispatch tick and suppose that at the start of its
  scheduling phase, that is after the reap phase, a job of the lock queue is Running.
  Then the tick returns, and every other queue keeps its jobs; if the queue shares no job
  with the lock queue (a job lives in one queue), then every job of it that is Running
  after the tick was Running before the tick, and the number of its Running jobs has not
  grown over the scheduling phase.
\<close>

theorem lock_queue_exclusion:
  assumes "map_of (queues (dispatch_reap m)) LockQueue = Some lq"
    and "\<exists>a\<in>set (Jobs lq). Status (heap (dispatch_reap m) a) = RunningStatus"
  shows "case dispatch sys m of
           None \<Rightarrow> False
         | Some m' \<Rightarrow>
             (\<forall>name q. name \<noteq> LockQueue \<and> map_of (queues (dispatch_reap m)) name = Some q
                        \<and> set (Jobs q) \<inter> set (Jobs lq) = {} \<longrightarrow>
                (\<exists>q'. map_of (queues m') name = Some q' \<and> mset (Jobs q') = mset (Jobs q)
                   \<and> (\<forall>a\<in>set (Jobs q'). Status (heap m' a) = RunningStatus \<longrightarrow>
                          Status (heap m a) = RunningStatus)
                   \<and> length (RunningJobs (heap m') q')
                       \<le> length (RunningJobs (heap (dispatch_reap m)) q)))"
proof -
  let ?m1 = "dispatch_reap m"
  from dispatch_schedule_locked [OF assms, of sys "map fst (queues ?m1)"] obtain m2 where
    d: "dispatch_schedule sys (map fst (queues ?m1)) ?m1 = Some m2"
    and r: "sched_rel (set (Jobs lq)) ?m1 m2" by auto
  let ?m' = "dispatch_notify m2"
  have disp: "dispatch sys m = Some ?m'"
    using d by (simp add: dispatch_def Let_def)
  have r': "sched_rel (set (Jobs lq)) ?m1 ?m'"
    using r dispatch_notify_sched_rel by (rule sched_rel_trans)
  then have q: "quiet ?m1 ?m'" by (simp add: sched_rel_def)
  have main: "\<exists>q'. map_of (queues ?m') name = Some q' \<and> mset (Jobs q') = mset (Jobs q)
                   \<and> (\<forall>a\<in>set (Jobs q'). Status (heap ?m' a) = RunningStatus \<longrightarrow>
                          Status (heap m a) = RunningStatus)
                   \<and> length (RunningJobs (heap ?m') q')
                       \<le> length (RunningJobs (heap ?m1) q)"
    if n: "map_of (queues ?m1) name = Some q" and dj: "set (Jobs q) \<inter> set (Jobs lq) = {}"
    for name q
  proof -
    from quiet_Jobs_set [OF q n] obtain q' where
      q': "map_of (queues ?m') name = Some q'" and ms: "mset (Jobs q') = mset (Jobs q)"
      by auto
    from arg_cong [OF ms, of set_mset] have se: "set (Jobs q') = set (Jobs q)" by simp
    have st: "Status (heap ?m1 a) = RunningStatus"
      if "a \<in> set (Jobs q)" and "Status (heap ?m' a) = RunningStatus" for a
      using r' that dj unfolding sched_rel_def by blast
    then have "\<forall>a\<in>set (Jobs q'). Status (heap ?m' a) = RunningStatus \<longrightarrow>
                 Status (heap m a) = RunningStatus"
      by (simp add: se dispatch_reap_Running)
    moreover have "length (RunningJobs (heap ?m') q') \<le> length (RunningJobs (heap ?m1) q)"
      unfolding RunningJobs_def
      by (rule filter_length_mono [OF ms]) (use st in blast)
    ultimately show ?thesis using q' ms by blast
  qed
  then show ?thesis
    unfolding disp by simp
qed

theorem lock_queue_exclusion_witness:
  "map_of (queues (dispatch_reap ex_m_lock)) LockQueue
     = Some \<lparr>Name_queue = LockQueue, Jobs = [0], Cap = 1\<rparr>
   \<and> Status (heap (dispatch_reap ex_m_lock) 0) = RunningStatus
   \<and> Status (heap ex_m_lock 1) = ReadyStatus
   \<and> (case dispatch sys_ok ex_m_lock of
         None \<Rightarrow> False
       | Some m' \<Rightarrow>
           Status (heap m' 1) = ReadyStatus
           \<and> map (\<lambda>(name, queue). (name, Jobs queue)) (queues m')
                = [(''download'', [1]), (''system change'', []), (''lock'', [0])])
   \<and> (case dispatch sys_ok (ex_m_lock\<lparr>queues := set_queue LockQueue (NewJobQueue LockQueue 1)
                                                  (queues ex_m_lock)\<rparr>) of
         None \<Rightarrow> False
       | Some m' \<Rightarrow> Status (heap m' 1) = RunningStatus)"
proof -
  have l: "map_of (queues (dispatch_reap ex_m_lock)) LockQueue
     = Some \<lparr>Name_queue = LockQueue, Jobs = [0], Cap = 1\<rparr>" by code_simp
  have s: "Status (heap (dispatch_reap ex_m_lock) 0) = RunningStatus" by code_simp
  then have r: "\<exists>a\<in>set (Jobs \<lparr>Name_queue = LockQueue, Jobs = [0], Cap = 1\<rparr>).
                  Status (heap (dispatch_reap ex_m_lock) a) = RunningStatus" by simp
  have c: "Status (heap ex_m_lock 1) = ReadyStatus
   \<and> (case dispatch sys_ok ex_m_lock of
         None \<Rightarrow> False
       | Some m' \<Rightarrow>
           Status (heap m' 1) = ReadyStatus
           \<and> map (\<lambda>(name, queue). (name, Jobs queue)) (queues m')
                = [(''download'', [1]), (''system change'', []), (''lock'', [0])])
   \<and> (case dispatch sys_ok (ex_m_lock\<lparr>queues := set_queue LockQueue (NewJobQueue LockQueue 1)
                                                  (queues ex_m_lock)\<rparr>) of
         None \<Rightarrow> False
       | Some m' \<Rightarrow> Status (heap m' 1) = RunningStatus)" by code_simp
  from lock_queue_exclusion [OF l r, of sys_ok] l s c show ?thesis by blast
qed









end
